theory Spec2Isabelle
  imports Complex_Main "HOL-Library.Log_Nat"
begin

section \<open>The annotation page of the video annotation tool\<close>

text \<open>
  A shallow embedding of \<^verbatim>\<open>src/pages/VideoAnnotationPage.tsx\<close> (the page component that owns
  the annotation state and interprets pointer gestures), of the thin service wrapper
  \<^verbatim>\<open>src/services/annotationService.ts\<close>, and of the wiring of the \<^verbatim>\<open>FrameViewer\<close>,
  \<^verbatim>\<open>AnnotationOverlay\<close> and \<^verbatim>\<open>Sidebar\<close> components.

  Identifiers, frame indices and frame numbers are integers. The JavaScript numbers that hold
  pixel coordinates are modelled as rationals (\<^typ>\<open>rat\<close>) with exact \<open>+\<close>, \<open>-\<close>, \<open>Math.min\<close>,
  \<open>Math.max\<close> and \<open>Math.abs\<close>. The conversions between frame numbers and seconds
  (\<open>startFrame / 30\<close>, \<open>Math.floor(start_time * 30)\<close>) decide which frame an annotation belongs
  to, so there the product and the quotient are rounded to the nearest double as the
  language does (\<open>double\<close> below). \<open>NaN\<close> is modelled where the source can produce it from
  well-typed input, which is in \<open>parseDuration\<close> only.
\<close>

subsection \<open>Doubles\<close>

text \<open>
  The value of a JavaScript \<open>*\<close> or \<open>/\<close> is the exact result rounded to the nearest double, a
  tie going to the double with an even significand. \<open>round_even\<close> rounds to the nearest integer
  in that way. The doubles around \<open>x\<close> are the multiples of \<open>quantum x\<close>: with
  \<open>2 ^ e \<le> \<bar>x\<bar> < 2 ^ (e + 1)\<close> the quantum is \<open>2 ^ (e - 52)\<close>, and below \<open>2 ^ emin\<close> (the
  subnormal range) it stays \<open>2 ^ (emin - 52) = 2 ^ - 1074\<close>. The exponent \<open>e\<close> is read off the
  bit length of \<open>\<lfloor>\<bar>x\<bar> * 2 ^ 1074\<rfloor>\<close>. A result of magnitude \<open>2 ^ 1024\<close> or more, which the
  language turns into \<open>Infinity\<close>, is not modelled: it is rounded as if the exponent had no upper
  limit (for a time in seconds this is beyond \<open>10 ^ 306\<close>).
\<close>

definition round_even :: "rat \<Rightarrow> int" where
  "round_even x =
     (let f = \<lfloor>x\<rfloor>; r = x - of_int f
      in if r < 1 / 2 then f else if 1 / 2 < r then f + 1 else if even f then f else f + 1)"

definition emin :: int where
  "emin = - 1022"

definition subnormal_bits :: nat where
  "subnormal_bits = 1074"

definition quantum :: "rat \<Rightarrow> rat" where
  "quantum x =
     2 powi (max (bitlen \<lfloor>\<bar>x\<bar> * 2 ^ subnormal_bits\<rfloor> - int subnormal_bits - 1) emin - 52)"

definition double :: "rat \<Rightarrow> rat" where
  "double x = sgn x * of_int (round_even (\<bar>x\<bar> / quantum x)) * quantum x"

text \<open>The numbers that are doubles, as every number parsed from a JSON response is.\<close>

definition is_double :: "rat \<Rightarrow> bool" where
  "is_double x \<longleftrightarrow> double x = x"

subsection \<open>Parsing a duration\<close>

datatype jsnum = NaN | Num rat

text \<open>The argument of \<open>parseDuration\<close> has type \<open>string | number\<close>; \<open>DOther\<close> stands for any
  other run-time value (the source has a fallback branch for it).\<close>

datatype duration = DString string | DNumber jsnum | DOther

fun jadd :: "jsnum \<Rightarrow> jsnum \<Rightarrow> jsnum" where
  "jadd (Num a) (Num b) = Num (a + b)"
| "jadd _ _ = NaN"

fun jmul :: "jsnum \<Rightarrow> jsnum \<Rightarrow> jsnum" where
  "jmul (Num a) (Num b) = Num (a * b)"
| "jmul _ _ = NaN"

text \<open>\<open>v || 0\<close> on a number: \<open>NaN\<close> and \<open>0\<close> are falsy.\<close>

fun or_zero :: "jsnum \<Rightarrow> jsnum" where
  "or_zero NaN = Num 0"
| "or_zero (Num a) = (if a = 0 then Num 0 else Num a)"

text \<open>White space that \<open>parseInt\<close> skips, as far as it fits into an 8-bit character: TAB, LF,
  VT, FF, CR, SP and NBSP.\<close>

definition is_space :: "char \<Rightarrow> bool" where
  "is_space c \<longleftrightarrow> of_char c \<in> {9, 10, 11, 12, 13, 32, 160 :: nat}"

definition is_digit :: "char \<Rightarrow> bool" where
  "is_digit c \<longleftrightarrow> 48 \<le> (of_char c :: nat) \<and> (of_char c :: nat) \<le> 57"

definition digit_val :: "char \<Rightarrow> nat" where
  "digit_val c = of_char c - 48"

definition digits_val :: "string \<Rightarrow> nat" where
  "digits_val ds = foldl (\<lambda>a c. 10 * a + digit_val c) 0 ds"

text \<open>\<open>parseInt(s, 10)\<close>: skip leading white space, read an optional sign, then the longest
  run of decimal digits; \<open>NaN\<close> when that run is empty. Whatever follows the digits is
  ignored. The value is the exact integer: the rounding of a digit string beyond the precision
  of a double is not modelled.\<close>

definition parseInt :: "string \<Rightarrow> jsnum" where
  "parseInt s =
     (let s1 = dropWhile is_space s;
          neg = (case s1 of c # _ \<Rightarrow> c = CHR ''-'' | [] \<Rightarrow> False);
          s2 = (case s1 of c # r \<Rightarrow> if c = CHR ''-'' \<or> c = CHR ''+'' then r else s1 | [] \<Rightarrow> s1);
          ds = takeWhile is_digit s2
      in if ds = [] then NaN
         else Num (if neg then - of_nat (digits_val ds) else of_nat (digits_val ds)))"

text \<open>\<open>s.split(':')\<close>: the pieces between the colons; always at least one piece.\<close>

fun split_colon :: "string \<Rightarrow> string list" where
  "split_colon [] = [[]]"
| "split_colon (c # cs) =
     (if c = CHR '':'' then [] # split_colon cs
      else (case split_colon cs of p # ps \<Rightarrow> (c # p) # ps | [] \<Rightarrow> [[c]]))"

fun parseDuration :: "duration \<Rightarrow> jsnum" where
  "parseDuration (DString s) =
     (case map parseInt (split_colon s) of
        [h, m, sec] \<Rightarrow> jadd (jadd (jmul h (Num 3600)) (jmul m (Num 60))) sec
      | [m, sec] \<Rightarrow> jadd (jmul m (Num 60)) sec
      | _ \<Rightarrow> or_zero (parseInt s))"
| "parseDuration (DNumber n) = n"
| "parseDuration DOther = Num 0"

subsection \<open>Data model\<close>

text \<open>
  Record fields keep the source's names, with a suffix where a name would clash with a
  constant of HOL or with a field of another record: \<open>id_polyp\<close>, \<open>size_polyp\<close> (\<open>id\<close> and
  \<open>size\<close> of \<open>Polyp\<close>), \<open>notes_polyp\<close> (its \<open>notes\<close>, a keyword of Isabelle), \<open>pt_x\<close>, \<open>pt_y\<close> (\<open>x\<close> and \<open>y\<close> of a point), \<open>id_frame\<close> (\<open>id\<close> of
  \<open>FrameInfo\<close>), \<open>width_a\<close>, \<open>height_a\<close> (\<open>width\<close> and \<open>height\<close> of \<open>AnnotationBase\<close>), \<open>draw_*\<close>
  (the rectangle being drawn) and \<open>rect_*\<close> (the container's \<open>DOMRect\<close>).
\<close>

record Point =
  pt_x :: rat
  pt_y :: rat

record Size =
  width :: rat
  height :: rat

record Polyp =
  id_polyp :: int
  frame :: int
  notes_polyp :: string
  startFrame :: int
  endFrame :: "int option"
  position :: Point
  size_polyp :: Size

record FrameInfo =
  id_frame :: int
  path :: string

record Drawing =
  draw_x :: rat
  draw_y :: rat
  draw_width :: rat
  draw_height :: rat

text \<open>\<open>getBoundingClientRect()\<close> of the container, and the part of a mouse event that the
  handlers read (\<open>target_polyp\<close> is \<open>e.target.dataset.type === 'polyp'\<close>).\<close>

record DOMRect =
  rect_left :: rat
  rect_top :: rat
  rect_width :: rat
  rect_height :: rat

record MouseEvent =
  clientX :: rat
  clientY :: rat
  target_polyp :: bool

text \<open>The wire record of the persistence service (\<open>AnnotationBase\<close>); the records that
  \<open>fetchAnnotationsForFrame\<close> returns are read through the same field names.\<close>

record AnnotationBase =
  video_id :: int
  frame_id :: int
  polyp_id :: int
  label :: string
  x1 :: rat
  y1 :: rat
  x2 :: rat
  y2 :: rat
  width_a :: rat
  height_a :: rat
  start_time :: rat
  end_time :: "rat option"
  content :: "string option"

subsection \<open>The service wrapper\<close>

text \<open>What the HTTP client answers: the response data, or a failure that may carry the
  server's \<open>detail\<close> string.\<close>

datatype 'a response = Ok 'a | Failed "string option"

text \<open>\<open>error.response?.data?.detail || dflt\<close>: a missing or empty detail gives the default.\<close>

definition detail_or :: "string option \<Rightarrow> string \<Rightarrow> string" where
  "detail_or detail dflt = (case detail of Some d \<Rightarrow> if d = [] then dflt else d | None \<Rightarrow> dflt)"

definition createOrUpdateAnnotation :: "'a response \<Rightarrow> string + 'a" where
  "createOrUpdateAnnotation r =
     (case r of Ok d \<Rightarrow> Inr d | Failed detail \<Rightarrow> Inl (detail_or detail ''Failed to save annotation.''))"

definition fetchAnnotationsForFrame :: "'a response \<Rightarrow> string + 'a" where
  "fetchAnnotationsForFrame r =
     (case r of Ok d \<Rightarrow> Inr d | Failed detail \<Rightarrow> Inl (detail_or detail ''Failed to fetch annotations.''))"


text \<open>The calls that the page has issued to its collaborators, oldest first; the last
  argument of each is the bearer token.\<close>

datatype call =
    CreateOrUpdateAnnotation AnnotationBase string
  | FetchAnnotationsForFrame int string
  | DeleteAnnotation int int string
  | GetFramesPath int

subsection \<open>The state of the page\<close>

text \<open>
  The \<open>useState\<close> cells of \<open>VideoAnnotationPage\<close> that the annotation handlers read or write,
  the two values taken from the context and the route (\<open>authToken\<close>, \<open>videoId\<close> for
  \<open>Number(id)\<close>), and the log \<open>issued\<close> of collaborator calls. \<open>hasVideoMetadata\<close> stands for
  \<open>videoMetadata !== null\<close>. The cells of playback, upload and cropping are left out.
\<close>

record page =
  frames :: "FrameInfo list"
  polyps :: "Polyp list"
  selectedPolyp :: "int option"
  isResizing :: bool
  isDragging :: bool
  dragStart :: Point
  isDrawing :: bool
  drawingStart :: Point
  currentDrawing :: "Drawing option"
  hasVideoMetadata :: bool
  loading :: bool
  error :: string
  isFrameAnnotationMode :: bool
  currentFrameIndex :: int
  saving :: bool
  authToken :: "string option"
  videoId :: int
  issued :: "call list"

text \<open>\<open>frames.length > 0 ? frames[currentFrameIndex].id : null\<close>. With a non-empty list and an
  index out of range the source throws while rendering; the model has \<open>None\<close> there. Every
  write to the index in the source keeps it in range while the list is non-empty.\<close>

definition currentFrameId :: "page \<Rightarrow> int option" where
  "currentFrameId st =
     (if frames st = [] then None
      else if 0 \<le> currentFrameIndex st \<and> nat (currentFrameIndex st) < length (frames st)
      then Some (id_frame (frames st ! nat (currentFrameIndex st)))
      else None)"

text \<open>\<open>!authToken\<close>: a missing and an empty token are both falsy.\<close>

definition token :: "page \<Rightarrow> string option" where
  "token st = (case authToken st of Some t \<Rightarrow> if t = [] then None else Some t | None \<Rightarrow> None)"

subsection \<open>Synchronisation with the persistence service\<close>

text \<open>\<open>polyp.endFrame ? polyp.endFrame / 30 : null\<close>: \<open>null\<close> and \<open>0\<close> are both falsy. The two
  quotients by 30 are doubles.\<close>

definition annotationData :: "int \<Rightarrow> Polyp \<Rightarrow> AnnotationBase" where
  "annotationData vid polyp =
     \<lparr> video_id = vid,
       frame_id = frame polyp,
       polyp_id = id_polyp polyp,
       label = (if notes_polyp polyp = [] then ''No Label'' else notes_polyp polyp),
       x1 = pt_x (position polyp),
       y1 = pt_y (position polyp),
       x2 = pt_x (position polyp) + width (size_polyp polyp),
       y2 = pt_y (position polyp) + height (size_polyp polyp),
       width_a = width (size_polyp polyp),
       height_a = height (size_polyp polyp),
       start_time = double (of_int (startFrame polyp) / 30),
       end_time = (case endFrame polyp of
                     None \<Rightarrow> None
                   | Some n \<Rightarrow> if n = 0 then None else Some (double (of_int n / 30))),
       content = Some (notes_polyp polyp) \<rparr>"

text \<open>The answer of the backend to a create-or-update call is a parameter of every handler
  that can save. The asynchronous call is modelled as one step: \<open>saving\<close> is set, the call is
  issued, and the completion clears \<open>saving\<close> and records a failure in \<open>error\<close>.\<close>

type_synonym backend = "AnnotationBase \<Rightarrow> unit response"

definition saveAnnotation :: "backend \<Rightarrow> Polyp \<Rightarrow> page \<Rightarrow> page" where
  "saveAnnotation backend polyp st =
     (case token st of
        None \<Rightarrow> st\<lparr>error := ''Authentication required to save annotations.''\<rparr>
      | Some tok \<Rightarrow>
          (let data = annotationData (videoId st) polyp;
               st1 = st\<lparr>saving := True, issued := issued st @ [CreateOrUpdateAnnotation data tok]\<rparr>
           in case createOrUpdateAnnotation (backend data) of
                Inr _ \<Rightarrow> st1\<lparr>saving := False\<rparr>
              | Inl msg \<Rightarrow> st1\<lparr>error := ''Failed to save annotation: '' @ msg, saving := False\<rparr>))"

subsection \<open>Loading annotations and switching modes\<close>

text \<open>The mapping of a fetched record to a \<open>Polyp\<close> in \<open>loadAnnotations\<close>;
  \<open>annotation.end_time ? Math.floor(annotation.end_time * 30) : null\<close> treats \<open>null\<close> and \<open>0\<close>
  alike, and \<open>Math.floor\<close> is applied to the product as a double.\<close>

definition hydrate :: "int \<Rightarrow> AnnotationBase \<Rightarrow> Polyp" where
  "hydrate frameId annotation =
     \<lparr> id_polyp = polyp_id annotation,
       frame = frameId,
       notes_polyp = (case content annotation of Some c \<Rightarrow> c | None \<Rightarrow> []),
       startFrame = \<lfloor>double (start_time annotation * 30)\<rfloor>,
       endFrame = (case end_time annotation of
                     None \<Rightarrow> None
                   | Some t \<Rightarrow> if t = 0 then None else Some \<lfloor>double (t * 30)\<rfloor>),
       position = \<lparr> pt_x = x1 annotation, pt_y = y1 annotation \<rparr>,
       size_polyp = \<lparr> width = width_a annotation, height = height_a annotation \<rparr> \<rparr>"

definition loadAnnotations :: "AnnotationBase list response \<Rightarrow> page \<Rightarrow> page" where
  "loadAnnotations resp st =
     (case currentFrameId st of
        None \<Rightarrow> st
      | Some f \<Rightarrow>
          if \<not> isFrameAnnotationMode st then st
          else (case token st of
                  None \<Rightarrow> st\<lparr>error := ''Authentication required to load annotations.''\<rparr>
                | Some tok \<Rightarrow>
                    (let st1 = st\<lparr>issued := issued st @ [FetchAnnotationsForFrame f tok]\<rparr>
                     in case fetchAnnotationsForFrame resp of
                          Inr annotations \<Rightarrow> st1\<lparr>polyps := map (hydrate f) annotations\<rparr>
                        | Inl msg \<Rightarrow> st1\<lparr>error := ''Failed to load annotations: '' @ msg\<rparr>)))"

text \<open>The effect that runs \<open>loadAnnotations\<close>: after a step from \<open>before\<close> to \<open>st\<close> it runs when
  one of its dependencies has changed.\<close>

definition effect_deps :: "page \<Rightarrow> int \<times> bool \<times> string option \<times> int option" where
  "effect_deps st = (currentFrameIndex st, isFrameAnnotationMode st, authToken st, currentFrameId st)"

definition annotationsEffect :: "page \<Rightarrow> AnnotationBase list response \<Rightarrow> page \<Rightarrow> page" where
  "annotationsEffect before resp st =
     (if effect_deps st = effect_deps before then st
      else if currentFrameId st \<noteq> None then loadAnnotations resp st else st)"

definition fetchFrames :: "FrameInfo list response \<Rightarrow> page \<Rightarrow> page" where
  "fetchFrames resp st =
     (let st1 = st\<lparr>issued := issued st @ [GetFramesPath (videoId st)]\<rparr>
      in case resp of
           Ok data \<Rightarrow> st1\<lparr>frames := data, currentFrameIndex := 0, isFrameAnnotationMode := True\<rparr>
         | Failed _ \<Rightarrow> st1\<lparr>error := ''Unable to load frames. Please try again later.''\<rparr>)"

text \<open>The two buttons of the navigation bar, each followed by the effect.\<close>

definition onExitFrameMode :: "AnnotationBase list response \<Rightarrow> page \<Rightarrow> page" where
  "onExitFrameMode annResp st = annotationsEffect st annResp (st\<lparr>isFrameAnnotationMode := False\<rparr>)"

definition onEnterFrameMode ::
  "FrameInfo list response \<Rightarrow> AnnotationBase list response \<Rightarrow> page \<Rightarrow> page" where
  "onEnterFrameMode framesResp annResp st = annotationsEffect st annResp (fetchFrames framesResp st)"

subsection \<open>Sidebar actions\<close>





text \<open>\<open>handleAddNote\<close>: \<open>note\<close> is what \<open>prompt\<close> returned (\<open>None\<close> for a cancelled prompt). The
  record that is saved is looked up in \<open>polyps\<close> as the handler's closure holds it, that is
  in the list before the update.\<close>

definition handleAddNote :: "backend \<Rightarrow> string option \<Rightarrow> int \<Rightarrow> page \<Rightarrow> page" where
  "handleAddNote backend note polypId st =
     (case note of
        None \<Rightarrow> st
      | Some n \<Rightarrow>
          if n = [] then st
          else (let st1 = st\<lparr>polyps := map (\<lambda>polyp. if id_polyp polyp = polypId
                                                    then polyp\<lparr>notes_polyp := n\<rparr> else polyp)
                                              (polyps st)\<rparr>
                in case find (\<lambda>p. id_polyp p = polypId) (polyps st) of
                     Some updatedPolyp \<Rightarrow> saveAnnotation backend updatedPolyp st1
                   | None \<Rightarrow> st1))"

definition handleEndPolyp :: "backend \<Rightarrow> int \<Rightarrow> page \<Rightarrow> page" where
  "handleEndPolyp backend polypId st =
     (if isFrameAnnotationMode st \<and> currentFrameId st \<noteq> None
      then (let st1 = st\<lparr>polyps := map (\<lambda>polyp. if id_polyp polyp = polypId
                                                then polyp\<lparr>endFrame := Some (currentFrameIndex st + 1)\<rparr>
                                                else polyp)
                                          (polyps st)\<rparr>
            in case find (\<lambda>p. id_polyp p = polypId) (polyps st) of
                 Some updatedPolyp \<Rightarrow> saveAnnotation backend updatedPolyp st1
               | None \<Rightarrow> st1)
      else st)"

subsection \<open>Dragging and resizing\<close>

definition startDrag :: "MouseEvent \<Rightarrow> int \<Rightarrow> DOMRect option \<Rightarrow> page \<Rightarrow> page" where
  "startDrag e polypId container st =
     (if \<not> isFrameAnnotationMode st then st
      else (let st1 = st\<lparr>isDragging := True, isResizing := False, selectedPolyp := Some polypId\<rparr>
            in case container of
                 None \<Rightarrow> st1
               | Some c \<Rightarrow>
                   (case find (\<lambda>p. id_polyp p = polypId) (polyps st) of
                      None \<Rightarrow> st1
                    | Some polyp \<Rightarrow>
                        st1\<lparr>dragStart := \<lparr> pt_x = clientX e - rect_left c - pt_x (position polyp),
                                           pt_y = clientY e - rect_top c - pt_y (position polyp) \<rparr>\<rparr>)))"

text \<open>The record that \<open>onDrag\<close> builds for the selected annotation.\<close>

definition dragged :: "MouseEvent \<Rightarrow> DOMRect \<Rightarrow> Point \<Rightarrow> Polyp \<Rightarrow> Polyp" where
  "dragged e c start polyp =
     (let newX = clientX e - rect_left c - pt_x start;
          newY = clientY e - rect_top c - pt_y start
      in polyp\<lparr>position :=
           \<lparr> pt_x = max 0 (min newX (rect_width c - width (size_polyp polyp))),
             pt_y = max 0 (min newY (rect_height c - height (size_polyp polyp))) \<rparr>\<rparr>)"

text \<open>\<open>onDrag\<close> saves each record it updates, from inside the update of the list.\<close>

definition onDrag :: "backend \<Rightarrow> MouseEvent \<Rightarrow> DOMRect option \<Rightarrow> page \<Rightarrow> page" where
  "onDrag backend e container st =
     (if \<not> isDragging st then st
      else (case selectedPolyp st of
              None \<Rightarrow> st
            | Some sel \<Rightarrow>
                (case container of
                   None \<Rightarrow> st
                 | Some c \<Rightarrow>
                     fold (saveAnnotation backend)
                       (map (dragged e c (dragStart st))
                          (filter (\<lambda>polyp. id_polyp polyp = sel) (polyps st)))
                       (st\<lparr>polyps := map (\<lambda>polyp. if id_polyp polyp = sel
                                                  then dragged e c (dragStart st) polyp else polyp)
                                            (polyps st)\<rparr>))))"


text \<open>The record that \<open>onResize\<close> builds for the selected annotation.\<close>

definition resized :: "rat \<Rightarrow> rat \<Rightarrow> DOMRect \<Rightarrow> Polyp \<Rightarrow> Polyp" where
  "resized deltaX deltaY c p =
     p\<lparr>size_polyp :=
         \<lparr> width = max 30 (min (width (size_polyp p) + deltaX) (rect_width c - pt_x (position p))),
           height = max 30 (min (height (size_polyp p) + deltaY) (rect_height c - pt_y (position p))) \<rparr>\<rparr>"

definition onResize :: "MouseEvent \<Rightarrow> DOMRect option \<Rightarrow> page \<Rightarrow> page" where
  "onResize e container st =
     (if \<not> isResizing st then st
      else (case selectedPolyp st of
              None \<Rightarrow> st
            | Some sel \<Rightarrow>
                (case container of
                   None \<Rightarrow> st
                 | Some c \<Rightarrow>
                     (case find (\<lambda>p. id_polyp p = sel) (polyps st) of
                        None \<Rightarrow> st
                      | Some _ \<Rightarrow>
                          (let deltaX = clientX e - pt_x (dragStart st);
                               deltaY = clientY e - pt_y (dragStart st)
                           in st\<lparr>polyps := map (\<lambda>p. if id_polyp p = sel
                                                      then resized deltaX deltaY c p else p)
                                                (polyps st),
                                  dragStart := \<lparr> pt_x = clientX e, pt_y = clientY e \<rparr>\<rparr>)))))"

definition endDragOrResize :: "page \<Rightarrow> page" where
  "endDragOrResize st = st\<lparr>isDragging := False, isResizing := False\<rparr>"

subsection \<open>Drawing\<close>

definition handleMouseDown :: "MouseEvent \<Rightarrow> DOMRect option \<Rightarrow> page \<Rightarrow> page" where
  "handleMouseDown e container st =
     (if \<not> isFrameAnnotationMode st then st
      else if target_polyp e then st
      else (case container of
              None \<Rightarrow> st
            | Some c \<Rightarrow>
                (let x = clientX e - rect_left c;
                     y = clientY e - rect_top c
                 in st\<lparr>isDrawing := True,
                        drawingStart := \<lparr> pt_x = x, pt_y = y \<rparr>,
                        currentDrawing := Some \<lparr> draw_x = x, draw_y = y, draw_width = 0, draw_height = 0 \<rparr>,
                        selectedPolyp := None\<rparr>)))"

definition handleMouseMove :: "backend \<Rightarrow> MouseEvent \<Rightarrow> DOMRect option \<Rightarrow> page \<Rightarrow> page" where
  "handleMouseMove backend e container st =
     (if \<not> isFrameAnnotationMode st then st
      else if isDrawing st then
        (case container of
           None \<Rightarrow> st
         | Some c \<Rightarrow>
             (let currentX = clientX e - rect_left c;
                  currentY = clientY e - rect_top c;
                  w = currentX - pt_x (drawingStart st);
                  h = currentY - pt_y (drawingStart st)
              in st\<lparr>currentDrawing :=
                      Some \<lparr> draw_x = (if w < 0 then currentX else pt_x (drawingStart st)),
                             draw_y = (if h < 0 then currentY else pt_y (drawingStart st)),
                             draw_width = \<bar>w\<bar>,
                             draw_height = \<bar>h\<bar> \<rparr>\<rparr>))
      else if isResizing st then onResize e container st
      else if isDragging st then onDrag backend e container st
      else st)"

text \<open>\<open>handleMouseUp\<close> takes no event: it reads \<open>currentDrawing\<close>, the rectangle of the last
  move. \<open>now\<close> is the value of \<open>Date.now()\<close>.\<close>

definition handleMouseUp :: "backend \<Rightarrow> int \<Rightarrow> page \<Rightarrow> page" where
  "handleMouseUp backend now st =
     (case currentDrawing st of
        None \<Rightarrow> endDragOrResize st
      | Some d \<Rightarrow>
          (case currentFrameId st of
             None \<Rightarrow> endDragOrResize st
           | Some f \<Rightarrow>
               if \<not> isDrawing st then endDragOrResize st
               else (let newPolyp =
                           \<lparr> id_polyp = now,
                             frame = f,
                             notes_polyp = [],
                             startFrame = currentFrameIndex st + 1,
                             endFrame = None,
                             position = \<lparr> pt_x = draw_x d, pt_y = draw_y d \<rparr>,
                             size_polyp = \<lparr> width = draw_width d, height = draw_height d \<rparr> \<rparr>
                     in saveAnnotation backend newPolyp
                          (st\<lparr>polyps := polyps st @ [newPolyp],
                              isDrawing := False,
                              currentDrawing := None\<rparr>))))"

text \<open>The events that the \<open>FrameViewer\<close> element forwards: \<open>onMouseDown\<close> and \<open>onMouseMove\<close> pass
  the event on, \<open>onMouseUp\<close> and \<open>onMouseLeave\<close> both call \<open>handleMouseUp\<close>, which drops it.\<close>

datatype pointer_event =
    MouseDown MouseEvent
  | MouseMove MouseEvent
  | MouseUp MouseEvent
  | MouseLeave MouseEvent

fun frameViewer :: "backend \<Rightarrow> DOMRect option \<Rightarrow> int \<Rightarrow> pointer_event \<Rightarrow> page \<Rightarrow> page" where
  "frameViewer backend container now (MouseDown e) st = handleMouseDown e container st"
| "frameViewer backend container now (MouseMove e) st = handleMouseMove backend e container st"
| "frameViewer backend container now (MouseUp e) st = handleMouseUp backend now st"
| "frameViewer backend container now (MouseLeave e) st = handleMouseUp backend now st"

subsection \<open>What the page renders\<close>

text \<open>The page returns early while loading and whenever \<open>error\<close> is non-empty or the metadata
  is missing; otherwise it shows the frame view or the video view, each with an overlay and
  the sidebar. The two lists of a view are the annotations handed to \<open>AnnotationOverlay\<close> and
  the \<open>filteredPolyps\<close> of \<open>Sidebar\<close> (whose second filter, on a \<open>null\<close> or \<open>undefined\<close> frame,
  keeps no \<open>Polyp\<close>, since \<open>frame\<close> is a number).\<close>

datatype view =
    LoadingView
  | ErrorView string
  | FrameView "Polyp list" "Polyp list"
  | VideoView "Polyp list" "Polyp list"

definition render :: "page \<Rightarrow> view" where
  "render st =
     (if loading st then LoadingView
      else if error st \<noteq> [] \<or> \<not> hasVideoMetadata st
      then ErrorView (if error st \<noteq> [] then error st else ''Video not found.'')
      else if isFrameAnnotationMode st
      then FrameView (filter (\<lambda>polyp. Some (frame polyp) = currentFrameId st) (polyps st))
                     (filter (\<lambda>polyp. Some (frame polyp) = currentFrameId st) (polyps st))
      else VideoView (filter (\<lambda>polyp. endFrame polyp = None \<or> endFrame polyp = Some 0) (polyps st))
                     [])"

subsection \<open>The rectangle between two points\<close>

text \<open>The rectangle spanned by a start point and a current point, with non-negative width and
  height whatever the direction of the drag. Lemma \<open>handleMouseMove_drawing\<close> below shows that
  this is the rectangle \<open>handleMouseMove\<close> stores in \<open>currentDrawing\<close>.\<close>

definition drawn_rect :: "rat \<Rightarrow> rat \<Rightarrow> rat \<Rightarrow> rat \<Rightarrow> Drawing" where
  "drawn_rect xa ya xb yb =
     \<lparr> draw_x = min xa xb, draw_y = min ya yb, draw_width = \<bar>xb - xa\<bar>, draw_height = \<bar>yb - ya\<bar> \<rparr>"

subsection \<open>Example states\<close>

text \<open>A video with ten frames, shown in frame annotation mode at frame index 4 in a container
  of 640 by 480 pixels whose top left corner is at client position (10, 20); an open
  annotation, a closed one, and one that ends 20 pixels from the right edge; a backend that
  accepts every save and one that rejects every save.\<close>

definition demo_frames :: "FrameInfo list" where
  "demo_frames = map (\<lambda>i. \<lparr> id_frame = i, path = ''frame.jpg'' \<rparr>) [100, 101, 102, 103, 104, 105, 106, 107, 108, 109]"

definition demo_container :: DOMRect where
  "demo_container = \<lparr> rect_left = 10, rect_top = 20, rect_width = 640, rect_height = 480 \<rparr>"

definition demo_page :: page where
  "demo_page =
     \<lparr> frames = demo_frames, polyps = [], selectedPolyp = None, isResizing = False,
       isDragging = False, dragStart = \<lparr> pt_x = 0, pt_y = 0 \<rparr>, isDrawing = False,
       drawingStart = \<lparr> pt_x = 0, pt_y = 0 \<rparr>, currentDrawing = None,
       hasVideoMetadata = True, loading = False, error = [], isFrameAnnotationMode = True,
       currentFrameIndex = 4, saving = False, authToken = Some ''token'', videoId = 7,
       issued = [] \<rparr>"

definition demo_polyp :: Polyp where
  "demo_polyp =
     \<lparr> id_polyp = 1, frame = 104, notes_polyp = [], startFrame = 5, endFrame = None,
       position = \<lparr> pt_x = 50, pt_y = 50 \<rparr>, size_polyp = \<lparr> width = 100, height = 70 \<rparr> \<rparr>"

definition closed_polyp :: Polyp where
  "closed_polyp = demo_polyp\<lparr>endFrame := Some 10\<rparr>"

definition edge_polyp :: Polyp where
  "edge_polyp = demo_polyp\<lparr>position := \<lparr> pt_x = 620, pt_y = 50 \<rparr>,
                           size_polyp := \<lparr> width = 20, height = 70 \<rparr>\<rparr>"

definition accepting :: backend where
  "accepting = (\<lambda>_. Ok ())"


definition pointer_at :: "rat \<Rightarrow> rat \<Rightarrow> MouseEvent" where
  "pointer_at x y = \<lparr> clientX = x, clientY = y, target_polyp = False \<rparr>"

definition page_with :: "Polyp list \<Rightarrow> page" where
  "page_with ps = demo_page\<lparr>polyps := ps\<rparr>"

definition dragging_page :: "Polyp list \<Rightarrow> page" where
  "dragging_page ps = (page_with ps)\<lparr>isDragging := True, selectedPolyp := Some 1,
                                     dragStart := \<lparr> pt_x = 5, pt_y = 5 \<rparr>\<rparr>"

definition resizing_page :: "Polyp list \<Rightarrow> page" where
  "resizing_page ps = (page_with ps)\<lparr>isResizing := True, selectedPolyp := Some 1,
                                     dragStart := \<lparr> pt_x = 400, pt_y = 300 \<rparr>\<rparr>"

definition video_page :: "Polyp list \<Rightarrow> page" where
  "video_page ps = (page_with ps)\<lparr>isFrameAnnotationMode := False\<rparr>"

text \<open>The double nearest to one thirtieth, which the language prints as
  \<open>0.03333333333333333\<close>; it is less than one thirtieth.\<close>

definition thirtieth :: rat where
  "thirtieth = 4803839602528529 / 144115188075855872"

definition short_end_annotation :: AnnotationBase where
  "short_end_annotation = (annotationData 7 demo_polyp)\<lparr>end_time := Some (1 / 64)\<rparr>"

definition noted_polyp :: Polyp where
  "noted_polyp = demo_polyp\<lparr>notes_polyp := ''sessile'', endFrame := Some 10\<rparr>"

section \<open>Properties\<close>

text \<open>The definitions of the example states, for evaluating them.\<close>

lemmas demo_defs = demo_frames_def demo_container_def demo_page_def demo_polyp_def accepting_def
  pointer_at_def

lemmas demo = demo_defs page_with_def

subsection \<open>Rounding to a double\<close>

lemma round_even_of_int [simp]: "round_even (of_int n) = n"
  by (simp add: round_even_def)

lemma round_even_floor: "\<lfloor>x\<rfloor> \<le> round_even x \<and> round_even x \<le> \<lfloor>x\<rfloor> + 1"
  by (simp add: round_even_def Let_def)

lemma round_even_mono: "x \<le> y \<Longrightarrow> round_even x \<le> round_even y"
proof -
  assume xy: "x \<le> y"
  then have f: "\<lfloor>x\<rfloor> \<le> \<lfloor>y\<rfloor>" by (rule floor_mono)
  show ?thesis
  proof (cases "\<lfloor>x\<rfloor> = \<lfloor>y\<rfloor>")
    case True
    with xy show ?thesis
      by (auto simp: round_even_def Let_def)
  next
    case False
    with f have "\<lfloor>x\<rfloor> + 1 \<le> \<lfloor>y\<rfloor>" by simp
    with round_even_floor [of x] round_even_floor [of y] show ?thesis by linarith
  qed
qed

lemma round_even_less_even:
  assumes "even n"
  shows "round_even y < n \<longleftrightarrow> y < of_int n - 1 / 2"
proof
  assume a: "round_even y < n"
  show "y < of_int n - 1 / 2"
  proof (rule ccontr)
    assume "\<not> y < of_int n - 1 / 2"
    then have y: "of_int n - 1 / 2 \<le> y" by simp
    then have "of_int (n - 1) \<le> y" by simp
    then have fl: "n - 1 \<le> \<lfloor>y\<rfloor>" by (simp only: le_floor_iff)
    show False
    proof (cases "\<lfloor>y\<rfloor> = n - 1")
      case True
      then have "odd \<lfloor>y\<rfloor>" using assms by simp
      moreover have "1 / 2 \<le> y - of_int \<lfloor>y\<rfloor>" using y True by simp
      ultimately have "round_even y = \<lfloor>y\<rfloor> + 1"
        by (auto simp: round_even_def Let_def)
      with True a show False by simp
    next
      case False
      with fl have "n \<le> \<lfloor>y\<rfloor>" by simp
      with round_even_floor [of y] a show False by linarith
    qed
  qed
next
  assume y: "y < of_int n - 1 / 2"
  then have "y < of_int n" by simp
  then have fl: "\<lfloor>y\<rfloor> < n" by (simp only: floor_less_iff)
  show "round_even y < n"
  proof (cases "\<lfloor>y\<rfloor> = n - 1")
    case True
    then have "y - of_int \<lfloor>y\<rfloor> < 1 / 2" using y by simp
    then have "round_even y = \<lfloor>y\<rfloor>" by (simp add: round_even_def Let_def)
    with True show ?thesis by simp
  next
    case False
    with fl have "\<lfloor>y\<rfloor> + 1 < n" by simp
    with round_even_floor [of y] show ?thesis by linarith
  qed
qed

lemma powi_nonneg_eq: "0 \<le> m \<Longrightarrow> (2::rat) powi m = 2 ^ nat m"
  by (simp add: power_int_def)

lemma floor_scaled_bounds:
  fixes a :: rat
  assumes "- int N \<le> k" and "2 powi k \<le> a" and "a < 2 powi (k + 1)"
  shows "2 ^ nat (k + int N) \<le> \<lfloor>a * 2 ^ N\<rfloor>" and "\<lfloor>a * 2 ^ N\<rfloor> < 2 ^ nat (k + int N + 1)"
proof -
  have p: "(2::rat) powi k * 2 ^ N = 2 ^ nat (k + int N)"
    using assms(1) by (simp add: power_int_add flip: powi_nonneg_eq)
  have q: "(2::rat) powi (k + 1) * 2 ^ N = 2 ^ nat (k + int N + 1)"
    using assms(1) by (simp add: power_int_add flip: powi_nonneg_eq)
  have "2 powi k * 2 ^ N \<le> a * 2 ^ N"
    using assms(2) by (simp add: mult_right_mono)
  then have "of_int (2 ^ nat (k + int N)) \<le> a * 2 ^ N"
    by (simp add: p)
  then show "2 ^ nat (k + int N) \<le> \<lfloor>a * 2 ^ N\<rfloor>"
    by (simp only: le_floor_iff)
  have "a * 2 ^ N < 2 powi (k + 1) * 2 ^ N"
    using assms(3) by (simp add: mult_strict_right_mono)
  then have "a * 2 ^ N < of_int (2 ^ nat (k + int N + 1))"
    by (simp add: q)
  then show "\<lfloor>a * 2 ^ N\<rfloor> < 2 ^ nat (k + int N + 1)"
    by (simp only: floor_less_iff)
qed

lemma bitlen_scaled:
  fixes a :: rat
  assumes "- int N \<le> k" and "2 powi k \<le> a" and "a < 2 powi (k + 1)"
  shows "bitlen \<lfloor>a * 2 ^ N\<rfloor> = k + int N + 1"
proof (rule antisym)
  from floor_scaled_bounds(2) [OF assms] assms(1)
  show "bitlen \<lfloor>a * 2 ^ N\<rfloor> \<le> k + int N + 1"
    by (simp add: bitlen_le_iff_power)
  from floor_scaled_bounds(1) [OF assms] assms(1)
  show "k + int N + 1 \<le> bitlen \<lfloor>a * 2 ^ N\<rfloor>"
    by (simp add: bitlen_ge_iff_power nat_add_distrib)
qed

lemma quantum_binade:
  assumes "emin \<le> k" and "2 powi k \<le> \<bar>x\<bar>" and "\<bar>x\<bar> < 2 powi (k + 1)"
  shows "quantum x = 2 powi (k - 52)"
proof -
  have "- int subnormal_bits \<le> k" using assms(1) by (simp add: emin_def subnormal_bits_def)
  from bitlen_scaled [OF this assms(2,3)]
  have "bitlen \<lfloor>\<bar>x\<bar> * 2 ^ subnormal_bits\<rfloor> - int subnormal_bits - 1 = k" by simp
  then show ?thesis
    using assms(1) unfolding quantum_def by simp
qed

lemma bitlen_scaled_le:
  fixes a :: rat
  assumes "a < 2 powi (int M - int N)"
  shows "bitlen \<lfloor>a * 2 ^ N\<rfloor> \<le> int M"
proof -
  have "a * 2 ^ N < 2 powi (int M - int N) * 2 ^ N"
    using assms by (simp add: mult_strict_right_mono)
  also have "(2::rat) powi (int M - int N) * 2 ^ N = of_int (2 ^ M)"
  proof -
    have "(2::rat) powi (int M - int N) * 2 ^ N = 2 powi (int M - int N) * 2 powi int N"
      by simp
    also have "\<dots> = 2 powi (int M - int N + int N)"
      by (rule power_int_add [symmetric]) simp
    also have "\<dots> = of_int (2 ^ M)"
      by simp
    finally show ?thesis .
  qed
  finally have "\<lfloor>a * 2 ^ N\<rfloor> < 2 ^ M"
    by (simp only: floor_less_iff)
  then show ?thesis
    by (simp add: bitlen_le_iff_power)
qed

lemma quantum_subnormal:
  assumes "\<bar>x\<bar> < 2 powi emin"
  shows "quantum x = 2 powi (emin - 52)"
proof -
  have "emin = int 52 - int subnormal_bits"
    by (simp add: emin_def subnormal_bits_def)
  with assms have "\<bar>x\<bar> < 2 powi (int 52 - int subnormal_bits)" by simp
  then have "bitlen \<lfloor>\<bar>x\<bar> * 2 ^ subnormal_bits\<rfloor> \<le> int 52"
    by (rule bitlen_scaled_le)
  then have "bitlen \<lfloor>\<bar>x\<bar> * 2 ^ subnormal_bits\<rfloor> - int subnormal_bits - 1 \<le> emin"
    by (simp add: emin_def subnormal_bits_def)
  then show ?thesis
    unfolding quantum_def by (simp add: max_def)
qed

lemma quantum_pos: "0 < quantum x"
  by (simp add: quantum_def)

lemma quantum_ge: "2 powi (emin - 52) \<le> quantum x"
  unfolding quantum_def by (rule power_int_increasing) simp_all

lemma powi_less_imp: "(2::rat) powi m < 2 powi n \<Longrightarrow> m < n"
proof (rule ccontr)
  assume a: "(2::rat) powi m < 2 powi n" and "\<not> m < n"
  then have "n \<le> m" by simp
  then have "(2::rat) powi n \<le> 2 powi m" by (rule power_int_increasing) simp
  with a show False by simp
qed

lemma exists_binade_scaled:
  fixes a :: rat
  assumes "1 \<le> a * 2 ^ N"
  shows "\<exists>k. 2 powi k \<le> a \<and> a < 2 powi (k + 1)"
proof -
  let ?n = "\<lfloor>a * 2 ^ N\<rfloor>"
  let ?b = "bitlen ?n"
  have "of_int 1 \<le> a * 2 ^ N" using assms by simp
  then have n1: "1 \<le> ?n" by (simp only: le_floor_iff)
  then have npos: "0 < ?n" by simp
  from bitlen_bounds [OF npos]
  have lo: "2 ^ nat (?b - 1) \<le> ?n" and hi: "?n < 2 ^ nat ?b" by auto
  have b1: "1 \<le> ?b" using n1 by (simp add: bitlen_ge_iff_power)
  have c: "(0::rat) < 2 powi int N" by simp
  have "of_int (2 ^ nat (?b - 1)) \<le> a * 2 ^ N"
    using lo by (simp only: le_floor_iff)
  then have "2 powi (?b - 1) \<le> a * 2 powi int N"
    using b1 by (simp add: powi_nonneg_eq)
  then have "2 powi (?b - 1) / 2 powi int N \<le> a"
    using c by (simp only: pos_divide_le_eq)
  moreover have "(2::rat) powi (?b - 1) / 2 powi int N = 2 powi (?b - 1 - int N)"
    by (rule power_int_diff [symmetric]) simp
  ultimately have l: "2 powi (?b - 1 - int N) \<le> a" by simp
  have "?n + 1 \<le> 2 ^ nat ?b" using hi by simp
  then have "(of_int (?n + 1) :: rat) \<le> of_int (2 ^ nat ?b)"
    by (simp only: of_int_le_iff)
  moreover have "a * 2 ^ N < of_int (?n + 1)"
    by (simp only: floor_less_iff [symmetric])
  ultimately have "a * 2 ^ N < of_int (2 ^ nat ?b)"
    by (rule less_le_trans [rotated])
  then have "a * 2 powi int N < 2 powi ?b"
    using b1 by (simp add: powi_nonneg_eq)
  then have "a < 2 powi ?b / 2 powi int N"
    using c by (simp only: pos_less_divide_eq)
  moreover have "(2::rat) powi ?b / 2 powi int N = 2 powi (?b - int N)"
    by (rule power_int_diff [symmetric]) simp
  ultimately have u: "a < 2 powi (?b - 1 - int N + 1)" by simp
  from l u show ?thesis by blast
qed

lemma exists_binade:
  fixes a :: rat
  assumes "2 powi emin \<le> a"
  shows "\<exists>k. emin \<le> k \<and> 2 powi k \<le> a \<and> a < 2 powi (k + 1)"
proof -
  have "(2::rat) powi emin * 2 powi (- emin) = 2 powi (emin + - emin)"
    by (rule power_int_add [symmetric]) simp
  then have one: "(2::rat) powi emin * 2 powi (- emin) = 1" by simp
  have "- emin = int (nat (- emin))" by (simp add: emin_def)
  then have nn: "(2::rat) powi (- emin) = 2 ^ nat (- emin)"
    by (simp add: powi_nonneg_eq emin_def del: power_numeral)
  have "2 powi emin * 2 powi (- emin) \<le> a * 2 powi (- emin)"
    using assms by (rule mult_right_mono) simp
  then have "1 \<le> a * 2 powi (- emin)"
    by (simp only: one)
  then have "1 \<le> a * 2 ^ nat (- emin)"
    by (simp only: nn)
  from exists_binade_scaled [OF this]
  obtain k where k: "2 powi k \<le> a" "a < 2 powi (k + 1)" by blast
  from assms k(2) have "(2::rat) powi emin < 2 powi (k + 1)" by (rule le_less_trans)
  then have "emin < k + 1"
    by (rule powi_less_imp)
  with k show ?thesis by auto
qed

lemma round_even_zero [simp]: "round_even 0 = 0"
  by (simp add: round_even_def)

lemma round_even_nonneg: "0 \<le> x \<Longrightarrow> 0 \<le> round_even x"
  using round_even_mono [of 0 x] round_even_of_int [of 0] by simp

lemma double_binade:
  assumes "emin \<le> k" and "2 powi k \<le> \<bar>x\<bar>" and "\<bar>x\<bar> < 2 powi (k + 1)"
  shows "double x = sgn x * of_int (round_even (\<bar>x\<bar> / 2 powi (k - 52))) * 2 powi (k - 52)"
  by (simp only: double_def quantum_binade [OF assms])

lemma abs_double: "\<bar>double x\<bar> = of_int (round_even (\<bar>x\<bar> / quantum x)) * quantum x"
proof -
  have "0 \<le> \<bar>x\<bar> / quantum x" using quantum_pos [of x] by simp
  then have "0 \<le> round_even (\<bar>x\<bar> / quantum x)" by (rule round_even_nonneg)
  then show ?thesis
    using quantum_pos [of x] by (cases "x = 0") (simp_all add: double_def abs_mult)
qed

lemma double_sign:
  "0 \<le> x \<Longrightarrow> 0 \<le> double x" "x \<le> 0 \<Longrightarrow> double x \<le> 0"
proof -
  have r: "0 \<le> (of_int (round_even (\<bar>x\<bar> / quantum x)) :: rat) * quantum x"
    using abs_double [of x] by (metis abs_ge_zero)
  show "0 \<le> x \<Longrightarrow> 0 \<le> double x"
    using r by (cases "x = 0") (simp_all add: double_def mult.assoc)
  show "x \<le> 0 \<Longrightarrow> double x \<le> 0"
    using r by (cases "x = 0") (simp_all add: double_def mult.assoc)
qed

lemma powi_ratio: "(2::rat) powi m / 2 powi n = 2 powi (m - n)"
  by (rule power_int_diff [symmetric]) simp

lemma abs_double_binade:
  assumes "emin \<le> k" and "2 powi k \<le> \<bar>x\<bar>" and "\<bar>x\<bar> < 2 powi (k + 1)"
  shows "2 powi k \<le> \<bar>double x\<bar>" and "\<bar>double x\<bar> \<le> 2 powi (k + 1)"
proof -
  let ?q = "(2::rat) powi (k - 52)"
  have q: "quantum x = ?q" using assms by (rule quantum_binade)
  have qpos: "0 < ?q" by simp
  have "2 powi k / ?q \<le> \<bar>x\<bar> / ?q"
    using assms(2) by (rule divide_right_mono) simp
  then have "of_int (2 ^ 52) \<le> \<bar>x\<bar> / ?q"
    by (simp only: powi_ratio) simp
  then have "round_even (of_int (2 ^ 52)) \<le> round_even (\<bar>x\<bar> / ?q)"
    by (rule round_even_mono)
  then have lo: "2 ^ 52 \<le> round_even (\<bar>x\<bar> / ?q)"
    by (simp only: round_even_of_int)
  have "\<bar>x\<bar> \<le> 2 powi (k + 1)" using assms(3) by simp
  then have "\<bar>x\<bar> / ?q \<le> 2 powi (k + 1) / ?q"
    by (rule divide_right_mono) simp
  then have "\<bar>x\<bar> / ?q \<le> of_int (2 ^ 53)"
    by (simp only: powi_ratio) simp
  then have "round_even (\<bar>x\<bar> / ?q) \<le> round_even (of_int (2 ^ 53))"
    by (rule round_even_mono)
  then have hi: "round_even (\<bar>x\<bar> / ?q) \<le> 2 ^ 53"
    by (simp only: round_even_of_int)
  have e1: "(of_int (2 ^ 52) :: rat) * ?q = 2 powi k"
  proof -
    have "(2::rat) powi 52 * 2 powi (k - 52) = 2 powi (52 + (k - 52))"
      by (rule power_int_add [symmetric]) simp
    then show ?thesis by simp
  qed
  have e2: "(of_int (2 ^ 53) :: rat) * ?q = 2 powi (k + 1)"
  proof -
    have "(2::rat) powi 53 * 2 powi (k - 52) = 2 powi (53 + (k - 52))"
      by (rule power_int_add [symmetric]) simp
    then show ?thesis by (simp add: add.commute)
  qed
  have "(of_int (2 ^ 52) :: rat) * ?q \<le> of_int (round_even (\<bar>x\<bar> / ?q)) * ?q"
    using lo by (intro mult_right_mono) simp_all
  then show "2 powi k \<le> \<bar>double x\<bar>"
    by (simp only: abs_double q e1)
  have "(of_int (round_even (\<bar>x\<bar> / ?q)) :: rat) * ?q \<le> of_int (2 ^ 53) * ?q"
    using hi by (intro mult_right_mono) simp_all
  then show "\<bar>double x\<bar> \<le> 2 powi (k + 1)"
    by (simp only: abs_double q e2)
qed

lemma abs_double_subnormal:
  assumes "\<bar>x\<bar> < 2 powi emin"
  shows "\<bar>double x\<bar> \<le> 2 powi emin"
proof -
  let ?q = "(2::rat) powi (emin - 52)"
  have q: "quantum x = ?q" using assms by (rule quantum_subnormal)
  have qpos: "0 < ?q" by simp
  have "\<bar>x\<bar> \<le> 2 powi emin" using assms by simp
  then have "\<bar>x\<bar> / ?q \<le> 2 powi emin / ?q"
    by (rule divide_right_mono) simp
  then have "\<bar>x\<bar> / ?q \<le> of_int (2 ^ 52)"
    by (simp only: powi_ratio) simp
  then have "round_even (\<bar>x\<bar> / ?q) \<le> round_even (of_int (2 ^ 52))"
    by (rule round_even_mono)
  then have hi: "round_even (\<bar>x\<bar> / ?q) \<le> 2 ^ 52"
    by (simp only: round_even_of_int)
  have e: "(of_int (2 ^ 52) :: rat) * ?q = 2 powi emin"
  proof -
    have "(2::rat) powi 52 * 2 powi (emin - 52) = 2 powi (52 + (emin - 52))"
      by (rule power_int_add [symmetric]) simp
    then show ?thesis by simp
  qed
  have "(of_int (round_even (\<bar>x\<bar> / ?q)) :: rat) * ?q \<le> of_int (2 ^ 52) * ?q"
    using hi by (intro mult_right_mono) simp_all
  then show ?thesis
    by (simp only: abs_double q e)
qed

lemma double_ge_one:
  assumes "1 \<le> x"
  shows "1 \<le> double x"
proof -
  have x: "\<bar>x\<bar> = x" "0 \<le> x" using assms by simp_all
  have "(2::rat) powi emin \<le> 2 powi 0"
    by (rule power_int_increasing) (simp_all add: emin_def)
  then have "2 powi emin \<le> x" using assms by simp
  from exists_binade [OF this] obtain k where k: "emin \<le> k" "2 powi k \<le> x" "x < 2 powi (k + 1)"
    by blast
  have "(2::rat) powi 0 < 2 powi (k + 1)" using assms k(3) by simp
  then have "0 < k + 1" by (rule powi_less_imp)
  then have "(2::rat) powi 0 \<le> 2 powi k" by (intro power_int_increasing) simp_all
  moreover have "2 powi k \<le> \<bar>double x\<bar>"
    using k by (intro abs_double_binade(1)) (simp_all add: x)
  moreover have "\<bar>double x\<bar> = double x" using double_sign(1) [OF x(2)] by simp
  ultimately show ?thesis by simp
qed

lemma double_le_half:
  assumes "0 \<le> x" and "x < 1 / 2"
  shows "double x \<le> 1 / 2"
proof -
  have x: "\<bar>x\<bar> = x" using assms by simp
  have h: "(1::rat) / 2 = 2 powi (- 1)" by simp
  have d: "\<bar>double x\<bar> = double x" using double_sign(1) [OF assms(1)] by simp
  show ?thesis
  proof (cases "x < 2 powi emin")
    case True
    then have "\<bar>double x\<bar> \<le> 2 powi emin" by (intro abs_double_subnormal) (simp add: x)
    moreover have "(2::rat) powi emin \<le> 2 powi (- 1)"
      by (rule power_int_increasing) (simp_all add: emin_def)
    ultimately show ?thesis unfolding d h by (rule order_trans)
  next
    case False
    then have "2 powi emin \<le> x" by simp
    from exists_binade [OF this] obtain k where k: "emin \<le> k" "2 powi k \<le> x" "x < 2 powi (k + 1)"
      by blast
    have "(2::rat) powi k < 2 powi (- 1)" using k(2) assms(2) unfolding h by (rule le_less_trans)
    then have "k < - 1" by (rule powi_less_imp)
    then have "(2::rat) powi (k + 1) \<le> 2 powi (- 1)" by (intro power_int_increasing) simp_all
    moreover have "\<bar>double x\<bar> \<le> 2 powi (k + 1)"
      using k by (intro abs_double_binade(2)) (simp_all add: x)
    ultimately show ?thesis unfolding d h by (rule order_trans [rotated])
  qed
qed

lemma double_near_one:
  assumes "1 / 2 \<le> x" and "x < 1"
  shows "double x = of_int (round_even (x * 2 ^ 53)) / 2 ^ 53"
proof -
  have x: "\<bar>x\<bar> = x" "sgn x = 1" using assms by simp_all
  have "emin \<le> - 1" by (simp add: emin_def)
  moreover have "2 powi (- 1) \<le> \<bar>x\<bar>" using assms by simp
  moreover have "\<bar>x\<bar> < 2 powi (- 1 + 1)" using assms by simp
  ultimately have "double x = sgn x * of_int (round_even (\<bar>x\<bar> / 2 powi (- 1 - 52))) * 2 powi (- 1 - 52)"
    by (rule double_binade)
  then show ?thesis by (simp add: x)
qed

lemma double_less_one_iff:
  assumes "0 < x"
  shows "double x < 1 \<longleftrightarrow> x < 1 - 1 / 2 ^ 54"
proof (cases "1 \<le> x")
  case True
  then have "1 \<le> double x" by (rule double_ge_one)
  with True show ?thesis by simp
next
  case False
  then have x1: "x < 1" by simp
  show ?thesis
  proof (cases "x < 1 / 2")
    case True
    with assms have "double x \<le> 1 / 2" by (intro double_le_half) simp_all
    with True show ?thesis by simp
  next
    case False
    then have h: "1 / 2 \<le> x" by simp
    have e: "even (2 ^ 53 :: int)" by simp
    have "double x < 1 \<longleftrightarrow> round_even (x * 2 ^ 53) < 2 ^ 53"
      unfolding double_near_one [OF h x1] by simp
    also have "\<dots> \<longleftrightarrow> x * 2 ^ 53 < of_int (2 ^ 53) - 1 / 2"
      by (rule round_even_less_even [OF e])
    also have "\<dots> \<longleftrightarrow> x < 1 - 1 / 2 ^ 54"
      by (simp add: mult.commute)
    finally show ?thesis .
  qed
qed

lemma floor_double_zero_iff:
  assumes "0 < x"
  shows "\<lfloor>double x\<rfloor> = 0 \<longleftrightarrow> x < 1 - 1 / 2 ^ 54"
proof -
  have "0 \<le> double x" using assms by (intro double_sign(1)) simp
  then have "\<lfloor>double x\<rfloor> = 0 \<longleftrightarrow> double x < 1"
    by (simp add: floor_eq_iff)
  then show ?thesis by (simp only: double_less_one_iff [OF assms])
qed

lemma is_double_abs_ge:
  assumes "is_double t" and "t \<noteq> 0"
  shows "2 powi (emin - 52) \<le> \<bar>t\<bar>"
proof -
  let ?r = "round_even (\<bar>t\<bar> / quantum t)"
  have t: "\<bar>t\<bar> = of_int ?r * quantum t"
    using assms(1) abs_double [of t] by (simp add: is_double_def)
  have "?r \<noteq> 0" using t assms(2) by auto
  moreover have "0 \<le> ?r" using quantum_pos [of t] by (intro round_even_nonneg) simp
  ultimately have "1 \<le> ?r" by simp
  then have "(of_int 1 :: rat) \<le> of_int ?r" by (simp only: of_int_le_iff)
  then have "1 * quantum t \<le> of_int ?r * quantum t"
    using quantum_pos [of t] by (intro mult_right_mono) simp_all
  with t quantum_ge [of t] show ?thesis by simp
qed

lemma double_negative_product:
  assumes "is_double t" and "t < 0"
  shows "double (t * 30) < 0"
proof -
  let ?x = "t * 30"
  have ax: "\<bar>?x\<bar> = 30 * \<bar>t\<bar>" by (simp add: abs_mult)
  have le: "double ?x \<le> 0" using assms(2) by (intro double_sign(2)) simp
  have "0 < \<bar>double ?x\<bar>"
  proof (cases "\<bar>?x\<bar> < 2 powi emin")
    case True
    let ?q = "(2::rat) powi (emin - 52)"
    have q: "quantum ?x = ?q" using True by (rule quantum_subnormal)
    have "?q \<le> \<bar>t\<bar>" using assms by (intro is_double_abs_ge) simp_all
    then have "1 * ?q \<le> \<bar>?x\<bar>" unfolding ax by simp
    then have "of_int 1 \<le> \<bar>?x\<bar> / ?q" by (simp add: pos_le_divide_eq)
    then have "round_even (of_int 1) \<le> round_even (\<bar>?x\<bar> / ?q)" by (rule round_even_mono)
    then have "1 \<le> round_even (\<bar>?x\<bar> / ?q)" by (simp only: round_even_of_int)
    then have "(0::rat) < of_int (round_even (\<bar>?x\<bar> / ?q))" by simp
    then have "0 < of_int (round_even (\<bar>?x\<bar> / ?q)) * ?q" by (intro mult_pos_pos) simp_all
    then show ?thesis by (simp only: abs_double q)
  next
    case False
    then have "2 powi emin \<le> \<bar>?x\<bar>" by simp
    from exists_binade [OF this] obtain k where
      k: "emin \<le> k" "2 powi k \<le> \<bar>?x\<bar>" "\<bar>?x\<bar> < 2 powi (k + 1)" by blast
    from abs_double_binade(1) [OF k] have "2 powi k \<le> \<bar>double ?x\<bar>" .
    moreover have "(0::rat) < 2 powi k" by simp
    ultimately show ?thesis by (rule less_le_trans [rotated])
  qed
  with le show ?thesis by simp
qed

text \<open>Values of \<open>double\<close> at concrete numbers. A frame number that is saved and loaded again
  can come back one less: 123 comes back as 122.\<close>

lemma floor_rat_numeral: "\<lfloor>(numeral a :: rat) / numeral b\<rfloor> = numeral a div numeral b"
  using floor_divide_of_int_eq [of "numeral a" "numeral b", where ?'a = rat] by simp

lemma double_eval:
  assumes "emin \<le> k" and "2 powi k \<le> x" and "x < 2 powi (k + 1)"
  shows "double x = of_int (round_even (x / 2 powi (k - 52))) * 2 powi (k - 52)"
proof -
  have "0 < (2::rat) powi k" by simp
  from this assms(2) have "0 < x" by (rule less_le_trans)
  then have x: "\<bar>x\<bar> = x" "sgn x = 1" by simp_all
  from double_binade [of k x] assms show ?thesis by (simp only: x mult_1)
qed

text \<open>The rounding on the numbers of the examples. A frame number that is saved and loaded
  again comes back as itself for 5, and as 122 for 123.\<close>

lemma double_thirtieth: "double (1 / 30) = thirtieth"
  using double_eval [where k = "- 5" and x = "1 / 30"]
  by (simp add: emin_def round_even_def Let_def floor_rat_numeral thirtieth_def)

lemma thirtieth_is_double: "is_double thirtieth"
  unfolding is_double_def
  using double_eval [where k = "- 5" and x = thirtieth]
  by (simp add: emin_def round_even_def Let_def floor_rat_numeral thirtieth_def)

lemma thirtieth_times_30: "double (thirtieth * 30) = 1"
  using double_eval [where k = "- 1" and x = "thirtieth * 30"]
  by (simp add: emin_def round_even_def Let_def floor_rat_numeral thirtieth_def)

lemma double_third: "double (1 / 3) = 6004799503160661 / 18014398509481984"
  using double_eval [where k = "- 2" and x = "1 / 3"]
  by (simp add: emin_def round_even_def Let_def floor_rat_numeral)

lemma double_sixth: "double (1 / 6) = 6004799503160661 / 36028797018963968"
  using double_eval [where k = "- 3" and x = "1 / 6"]
  by (simp add: emin_def round_even_def Let_def floor_rat_numeral)

lemma reload_frame_5: "\<lfloor>double (double (1 / 6) * 30)\<rfloor> = 5"
  using double_eval [where k = 2 and x = "double (1 / 6) * 30"]
  by (simp add: double_sixth emin_def round_even_def Let_def floor_rat_numeral)

lemma double_123: "double (41 / 10) = 4616189618054758 / 1125899906842624"
  using double_eval [where k = 2 and x = "41 / 10"]
  by (simp add: emin_def round_even_def Let_def floor_rat_numeral)

lemma reload_frame_123: "\<lfloor>double (double (123 / 30) * 30)\<rfloor> = 122"
proof -
  have v: "double (double (41 / 10) * 30) = 8655355533852671 / 70368744177664"
    using double_eval [where k = 6 and x = "double (41 / 10) * 30"]
    by (simp add: double_123 emin_def round_even_def Let_def floor_rat_numeral)
  have n: "(123::rat) / 30 = 41 / 10" by simp
  show ?thesis unfolding n v by (simp add: floor_rat_numeral)
qed

lemma is_double_64: "is_double (1 / 64)"
  unfolding is_double_def
  using double_eval [where k = "- 6" and x = "1 / 64"]
  by (simp add: emin_def round_even_def Let_def floor_rat_numeral)

subsection \<open>The duration parser\<close>

lemma split_colon_nocolon: "CHR '':'' \<notin> set s \<Longrightarrow> split_colon s = [s]"
  by (induction s) auto

lemma split_colon_app:
  "CHR '':'' \<notin> set a \<Longrightarrow> split_colon (a @ CHR '':'' # r) = a # split_colon r"
  by (induction a) (auto split: list.splits)

lemma digits_no_colon: "\<forall>c\<in>set a. is_digit c \<Longrightarrow> CHR '':'' \<notin> set a"
  by (auto simp: is_digit_def)

lemma parseInt_digits:
  assumes "a \<noteq> []" "\<forall>c\<in>set a. is_digit c"
  shows "parseInt a = Num (of_nat (digits_val a))"
proof -
  from assms obtain c r where a: "a = c # r" by (cases a) auto
  with assms have c: "is_digit c" by simp
  then have "c \<noteq> CHR ''-''" "c \<noteq> CHR ''+''" "\<not> is_space c"
    by (auto simp: is_digit_def is_space_def)
  moreover have "takeWhile is_digit a = a"
    using assms(2) by (simp add: takeWhile_eq_all_conv)
  ultimately show ?thesis
    using a by (simp add: parseInt_def Let_def)
qed

lemma length_split_colon: "length (split_colon s) = Suc (count_list s (CHR '':''))"
  by (induction s) (auto split: list.splits)

lemma parseDuration_other:
  assumes "count_list t (CHR '':'') \<notin> {1, 2}"
  shows "parseDuration (DString t) = or_zero (parseInt t)"
proof -
  have "length (map parseInt (split_colon t)) \<noteq> 2" "length (map parseInt (split_colon t)) \<noteq> 3"
    using assms by (auto simp: length_split_colon)
  then show ?thesis
    by (auto split: list.splits)
qed

lemma or_zero_case: "or_zero v = (case v of NaN \<Rightarrow> Num 0 | Num k \<Rightarrow> Num k)"
  by (cases v) auto

text \<open>
  Claim C8, as amended. For non-empty strings of decimal digits \<open>h\<close>, \<open>m\<close> and \<open>s\<close>, the
  parser maps \<open>h:m:s\<close> to \<open>h * 3600 + m * 60 + s\<close>, \<open>m:s\<close> to \<open>m * 60 + s\<close> and \<open>s\<close> alone to \<open>s\<close>; a
  number is returned as it is; and a string that does not split into two or three pieces at
  its colons yields the integer that \<open>parseInt\<close> reads at its start, and \<open>0\<close> when there is
  none.
\<close>

theorem parseDuration_forms:
  "(h \<noteq> [] \<and> m \<noteq> [] \<and> s \<noteq> [] \<and> (\<forall>c\<in>set (h @ m @ s). is_digit c) \<longrightarrow>
      parseDuration (DString (h @ CHR '':'' # m @ CHR '':'' # s))
        = Num (of_nat (digits_val h * 3600 + digits_val m * 60 + digits_val s))
      \<and> parseDuration (DString (m @ CHR '':'' # s)) = Num (of_nat (digits_val m * 60 + digits_val s))
      \<and> parseDuration (DString s) = Num (of_nat (digits_val s)))
   \<and> parseDuration (DNumber n) = n
   \<and> (count_list t (CHR '':'') \<notin> {1, 2} \<longrightarrow>
        parseDuration (DString t) = (case parseInt t of NaN \<Rightarrow> Num 0 | Num k \<Rightarrow> Num k))"
proof (intro conjI impI)
  assume a: "h \<noteq> [] \<and> m \<noteq> [] \<and> s \<noteq> [] \<and> (\<forall>c\<in>set (h @ m @ s). is_digit c)"
  then have d: "\<forall>c\<in>set h. is_digit c" "\<forall>c\<in>set m. is_digit c" "\<forall>c\<in>set s. is_digit c"
    by auto
  have ne: "h \<noteq> []" "m \<noteq> []" "s \<noteq> []" using a by auto
  have sp3: "split_colon (h @ CHR '':'' # m @ CHR '':'' # s) = [h, m, s]"
    using d by (simp add: split_colon_app split_colon_nocolon digits_no_colon)
  have sp2: "split_colon (m @ CHR '':'' # s) = [m, s]"
    using d by (simp add: split_colon_app split_colon_nocolon digits_no_colon)
  have sp1: "split_colon s = [s]"
    using d by (simp add: split_colon_nocolon digits_no_colon)
  show "parseDuration (DString (h @ CHR '':'' # m @ CHR '':'' # s))
        = Num (of_nat (digits_val h * 3600 + digits_val m * 60 + digits_val s))"
    using d ne by (simp add: sp3 parseInt_digits)
  show "parseDuration (DString (m @ CHR '':'' # s)) = Num (of_nat (digits_val m * 60 + digits_val s))"
    using d ne by (simp add: sp2 parseInt_digits)
  show "parseDuration (DString s) = Num (of_nat (digits_val s))"
    using d ne by (simp add: sp1 parseInt_digits)
next
  show "parseDuration (DNumber n) = n" by simp
next
  assume "count_list t (CHR '':'') \<notin> {1, 2}"
  then show "parseDuration (DString t) = (case parseInt t of NaN \<Rightarrow> Num 0 | Num k \<Rightarrow> Num k)"
    using parseDuration_other [of t] by (simp add: or_zero_case del: parseDuration.simps)
qed

theorem parseDuration_forms_witness:
  "parseDuration (DString ''01:30:00'') = Num 5400
   \<and> parseDuration (DString ''30:00'') = Num 1800
   \<and> parseDuration (DString ''00'') = Num 0
   \<and> parseDuration (DNumber (Num 90)) = Num 90
   \<and> parseDuration (DString ''abc'') = Num 0"
  using parseDuration_forms
    [where h = "''01''" and m = "''30''" and s = "''00''" and n = "Num 90" and t = "''abc''"]
  by (simp add: parseInt_def is_space_def is_digit_def digits_val_def digit_val_def)

text \<open>Claim C8 as stated fails: a string of none of the three forms can yield a number other
  than \<open>0\<close>, namely the integer at its start.\<close>

theorem parseDuration_unrecognized_counterexample:
  "parseDuration (DString ''1:2:3:4'') = Num 1 \<and> parseDuration (DString ''12abc'') = Num 12"
  by (simp add: parseInt_def is_space_def is_digit_def digits_val_def digit_val_def)

subsection \<open>Saving leaves the annotation list alone\<close>

lemma saveAnnotation_keeps:
  "polyps (saveAnnotation b p st) = polyps st"
  "selectedPolyp (saveAnnotation b p st) = selectedPolyp st"
  "frames (saveAnnotation b p st) = frames st"
  "currentFrameIndex (saveAnnotation b p st) = currentFrameIndex st"
  "isFrameAnnotationMode (saveAnnotation b p st) = isFrameAnnotationMode st"
  "authToken (saveAnnotation b p st) = authToken st"
  "videoId (saveAnnotation b p st) = videoId st"
  "loading (saveAnnotation b p st) = loading st"
  by (simp_all add: saveAnnotation_def Let_def split: option.splits sum.splits)

lemma fold_saveAnnotation_polyps:
  "polyps (fold (saveAnnotation b) ps st) = polyps st"
  by (induction ps arbitrary: st) (simp_all add: saveAnnotation_keeps)

lemma saveAnnotation_issued:
  "token st = Some tok \<Longrightarrow>
   issued (saveAnnotation b p st) = issued st @ [CreateOrUpdateAnnotation (annotationData (videoId st) p) tok]"
  by (simp add: saveAnnotation_def Let_def split: sum.splits)

lemma currentFrameId_cong:
  "frames s = frames st \<Longrightarrow> currentFrameIndex s = currentFrameIndex st \<Longrightarrow>
   currentFrameId s = currentFrameId st"
  by (simp add: currentFrameId_def)

lemma demo_currentFrameId: "currentFrameId demo_page = Some 104"
  by (simp add: currentFrameId_def demo_defs)

subsection \<open>Updating the annotations of one identifier\<close>

lemma find_none_conv: "find P xs = None \<longleftrightarrow> (\<forall>x\<in>set xs. \<not> P x)"
  by (induction xs) auto

lemma find_map_update:
  "find (\<lambda>p. id_polyp p = pid) ps = Some p \<Longrightarrow> (\<And>x. id_polyp (g x) = id_polyp x) \<Longrightarrow>
   find (\<lambda>p. id_polyp p = pid) (map (\<lambda>x. if id_polyp x = pid then g x else x) ps) = Some (g p)"
  by (induction ps) (auto split: if_splits)

lemma updated_member:
  assumes "q \<in> set (map (\<lambda>p. if id_polyp p = sel then g p else p) ps)" and "id_polyp q = sel"
    and "\<And>p. id_polyp (g p) = id_polyp p"
  shows "\<exists>p\<in>set ps. id_polyp p = sel \<and> q = g p"
proof -
  from assms(1) have "q \<in> (\<lambda>p. if id_polyp p = sel then g p else p) ` set ps"
    by (simp only: set_map)
  then obtain p where p: "p \<in> set ps" and q: "q = (if id_polyp p = sel then g p else p)"
    by (rule imageE)
  show ?thesis
  proof (cases "id_polyp p = sel")
    case True
    with p q show ?thesis by auto
  next
    case False
    with q assms(2) show ?thesis by simp
  qed
qed

lemma dragged_id: "id_polyp (dragged e c start p) = id_polyp p"
  by (simp add: dragged_def Let_def)

lemma resized_id: "id_polyp (resized dx dy c p) = id_polyp p"
  by (simp add: resized_def)

lemma onDrag_polyps:
  assumes "isDragging st" "selectedPolyp st = Some sel"
  shows "polyps (onDrag backend e (Some c) st)
         = map (\<lambda>polyp. if id_polyp polyp = sel then dragged e c (dragStart st) polyp else polyp)
             (polyps st)"
  using assms by (simp add: onDrag_def fold_saveAnnotation_polyps)

lemma onResize_polyps:
  assumes "isResizing st" "selectedPolyp st = Some sel"
  shows "polyps (onResize e (Some c) st)
         = map (\<lambda>p. if id_polyp p = sel
                     then resized (clientX e - pt_x (dragStart st)) (clientY e - pt_y (dragStart st)) c p
                     else p) (polyps st)"
proof (cases "find (\<lambda>p. id_polyp p = sel) (polyps st)")
  case None
  then have "\<forall>p\<in>set (polyps st). id_polyp p \<noteq> sel"
    by (simp add: find_none_conv)
  then have "map (\<lambda>p. if id_polyp p = sel
                     then resized (clientX e - pt_x (dragStart st)) (clientY e - pt_y (dragStart st)) c p
                     else p) (polyps st) = polyps st"
    by (simp add: map_idI)
  with None assms show ?thesis by (simp add: onResize_def)
next
  case (Some a)
  with assms show ?thesis by (simp add: onResize_def Let_def)
qed

lemma handleEndPolyp_polyps:
  assumes "isFrameAnnotationMode st" "currentFrameId st \<noteq> None"
  shows "polyps (handleEndPolyp backend pid st)
         = map (\<lambda>polyp. if id_polyp polyp = pid
                         then polyp\<lparr>endFrame := Some (currentFrameIndex st + 1)\<rparr> else polyp)
             (polyps st)"
  using assms by (simp add: handleEndPolyp_def Let_def saveAnnotation_keeps split: option.splits)

lemma onDrag_selected:
  assumes "isDragging st" and "selectedPolyp st = Some sel"
    and "q \<in> set (polyps (onDrag backend e (Some c) st))" and "id_polyp q = sel"
  shows "\<exists>p\<in>set (polyps st). id_polyp p = sel \<and> q = dragged e c (dragStart st) p"
proof -
  from assms(3) have "q \<in> set (map (\<lambda>p. if id_polyp p = sel then dragged e c (dragStart st) p else p)
                             (polyps st))"
    unfolding onDrag_polyps [OF assms(1,2)] .
  from updated_member [OF this assms(4) dragged_id] show ?thesis .
qed

lemma onResize_selected:
  assumes "isResizing st" and "selectedPolyp st = Some sel"
    and "q \<in> set (polyps (onResize e (Some c) st))" and "id_polyp q = sel"
  shows "\<exists>p\<in>set (polyps st). id_polyp p = sel
           \<and> q = resized (clientX e - pt_x (dragStart st)) (clientY e - pt_y (dragStart st)) c p"
proof -
  from assms(3) have "q \<in> set (map (\<lambda>p. if id_polyp p = sel
                     then resized (clientX e - pt_x (dragStart st)) (clientY e - pt_y (dragStart st)) c p
                     else p) (polyps st))"
    unfolding onResize_polyps [OF assms(1,2)] .
  from updated_member [OF this assms(4) resized_id] show ?thesis .
qed

lemma dragged_clamped:
  "0 \<le> pt_x (position (dragged e c start p)) \<and> 0 \<le> pt_y (position (dragged e c start p))
   \<and> (width (size_polyp (dragged e c start p)) \<le> rect_width c \<longrightarrow>
        pt_x (position (dragged e c start p)) + width (size_polyp (dragged e c start p)) \<le> rect_width c)
   \<and> (height (size_polyp (dragged e c start p)) \<le> rect_height c \<longrightarrow>
        pt_y (position (dragged e c start p)) + height (size_polyp (dragged e c start p)) \<le> rect_height c)"
  by (auto simp: dragged_def Let_def)

subsection \<open>The draw gesture\<close>

lemma handleMouseMove_drawing:
  assumes "isFrameAnnotationMode s" "isDrawing s"
  shows "handleMouseMove backend e (Some c) s
         = s\<lparr>currentDrawing := Some (drawn_rect (pt_x (drawingStart s)) (pt_y (drawingStart s))
                                     (clientX e - rect_left c) (clientY e - rect_top c))\<rparr>"
  using assms by (simp add: handleMouseMove_def drawn_rect_def Let_def min_def)

lemma moves_while_drawing:
  assumes "isFrameAnnotationMode s" "isDrawing s"
  shows "fold (frameViewer backend (Some c) now) (map MouseMove es) s
         = (if es = [] then s
            else s\<lparr>currentDrawing := Some (drawn_rect (pt_x (drawingStart s)) (pt_y (drawingStart s))
                                     (clientX (last es) - rect_left c) (clientY (last es) - rect_top c))\<rparr>)"
  using assms
proof (induction es arbitrary: s)
  case Nil
  then show ?case by simp
next
  case (Cons e es)
  let ?s' = "s\<lparr>currentDrawing := Some (drawn_rect (pt_x (drawingStart s)) (pt_y (drawingStart s))
                                     (clientX e - rect_left c) (clientY e - rect_top c))\<rparr>"
  have step: "handleMouseMove backend e (Some c) s = ?s'"
    using Cons.prems by (rule handleMouseMove_drawing)
  have "isFrameAnnotationMode ?s'" "isDrawing ?s'" using Cons.prems by simp_all
  from Cons.IH [OF this] show ?case
    by (simp add: step)
qed

lemma handleMouseDown_drawing:
  assumes "isFrameAnnotationMode st" "\<not> target_polyp e"
  shows "handleMouseDown e (Some c) st
         = st\<lparr>isDrawing := True,
               drawingStart := \<lparr> pt_x = clientX e - rect_left c, pt_y = clientY e - rect_top c \<rparr>,
               currentDrawing := Some (drawn_rect (clientX e - rect_left c) (clientY e - rect_top c)
                                          (clientX e - rect_left c) (clientY e - rect_top c)),
               selectedPolyp := None\<rparr>"
  using assms by (simp add: handleMouseDown_def drawn_rect_def Let_def)

lemma handleMouseUp_drawing:
  assumes "isDrawing s" "currentDrawing s = Some d" "currentFrameId s = Some f"
  shows "polyps (handleMouseUp backend now s)
         = polyps s @ [\<lparr> id_polyp = now, frame = f, notes_polyp = [],
                        startFrame = currentFrameIndex s + 1, endFrame = None,
                        position = \<lparr> pt_x = draw_x d, pt_y = draw_y d \<rparr>,
                        size_polyp = \<lparr> width = draw_width d, height = draw_height d \<rparr> \<rparr>]"
  using assms by (simp add: handleMouseUp_def Let_def saveAnnotation_keeps)

lemma draw_gesture_polyps:
  assumes "isFrameAnnotationMode st" and "currentFrameId st = Some f" and "\<not> target_polyp press"
    and "release = MouseUp e \<or> release = MouseLeave e"
  shows "polyps (fold (frameViewer backend (Some c) now)
                   (MouseDown press # map MouseMove moves @ [release]) st)
         = polyps st @
           [\<lparr> id_polyp = now, frame = f, notes_polyp = [],
              startFrame = currentFrameIndex st + 1, endFrame = None,
              position = \<lparr> pt_x = min (clientX press - rect_left c)
                                     (clientX (last (press # moves)) - rect_left c),
                           pt_y = min (clientY press - rect_top c)
                                     (clientY (last (press # moves)) - rect_top c) \<rparr>,
              size_polyp = \<lparr> width = \<bar>clientX (last (press # moves)) - clientX press\<bar>,
                             height = \<bar>clientY (last (press # moves)) - clientY press\<bar> \<rparr> \<rparr>]"
proof -
  let ?x0 = "clientX press - rect_left c" and ?y0 = "clientY press - rect_top c"
  let ?l = "last (press # moves)"
  let ?s1 = "handleMouseDown press (Some c) st"
  let ?s2 = "fold (frameViewer backend (Some c) now) (map MouseMove moves) ?s1"
  have s1: "?s1 = st\<lparr>isDrawing := True, drawingStart := \<lparr> pt_x = ?x0, pt_y = ?y0 \<rparr>,
                      currentDrawing := Some (drawn_rect ?x0 ?y0 ?x0 ?y0), selectedPolyp := None\<rparr>"
    using assms(1,3) by (rule handleMouseDown_drawing)
  have m1: "isFrameAnnotationMode ?s1" "isDrawing ?s1"
    using assms(1) by (simp_all add: s1)
  have s2: "?s2 = st\<lparr>isDrawing := True, drawingStart := \<lparr> pt_x = ?x0, pt_y = ?y0 \<rparr>,
                      currentDrawing := Some (drawn_rect ?x0 ?y0 (clientX ?l - rect_left c)
                                                (clientY ?l - rect_top c)),
                      selectedPolyp := None\<rparr>"
    unfolding moves_while_drawing [OF m1] by (simp add: s1)
  have "currentFrameId ?s2 = currentFrameId st"
    by (rule currentFrameId_cong) (simp_all add: s2)
  then have fid: "currentFrameId ?s2 = Some f"
    using assms(2) by simp
  have "polyps (handleMouseUp backend now ?s2)
        = polyps ?s2 @ [\<lparr> id_polyp = now, frame = f, notes_polyp = [],
                        startFrame = currentFrameIndex ?s2 + 1, endFrame = None,
                        position = \<lparr> pt_x = draw_x (drawn_rect ?x0 ?y0 (clientX ?l - rect_left c) (clientY ?l - rect_top c)),
                                     pt_y = draw_y (drawn_rect ?x0 ?y0 (clientX ?l - rect_left c) (clientY ?l - rect_top c)) \<rparr>,
                        size_polyp = \<lparr> width = draw_width (drawn_rect ?x0 ?y0 (clientX ?l - rect_left c) (clientY ?l - rect_top c)),
                                       height = draw_height (drawn_rect ?x0 ?y0 (clientX ?l - rect_left c) (clientY ?l - rect_top c)) \<rparr> \<rparr>]"
    by (rule handleMouseUp_drawing [OF _ _ fid]) (simp_all add: s2)
  moreover have "fold (frameViewer backend (Some c) now)
                   (MouseDown press # map MouseMove moves @ [release]) st
                 = handleMouseUp backend now ?s2"
    using assms(4) by auto
  moreover have "polyps ?s2 = polyps st" "currentFrameIndex ?s2 = currentFrameIndex st"
    by (simp_all add: s2)
  ultimately show ?thesis
    by (simp add: drawn_rect_def)
qed

lemma draw_gesture_nonneg:
  assumes "isFrameAnnotationMode st" and "currentFrameId st \<noteq> None" and "\<not> target_polyp press"
  shows "0 \<le> width (size_polyp (last (polyps (fold (frameViewer backend (Some c) now)
                (MouseDown press # map MouseMove moves @ [MouseUp e]) st))))
         \<and> 0 \<le> height (size_polyp (last (polyps (fold (frameViewer backend (Some c) now)
                (MouseDown press # map MouseMove moves @ [MouseUp e]) st))))"
proof -
  from assms(2) obtain g where g: "currentFrameId st = Some g" by auto
  have "MouseUp e = MouseUp e \<or> MouseUp e = MouseLeave e" by simp
  note eq = draw_gesture_polyps [OF assms(1) g assms(3) this, of backend c now moves]
  show ?thesis unfolding eq by simp
qed

text \<open>
  Claim C1, as amended. For every draw gesture in frame annotation mode with a current frame
  (a press on the empty surface, any number of moves, then a release by \<open>mouseup\<close> or by
  leaving the surface), the release appends one new open annotation to the list. Its position
  is the component-wise minimum of the press point and the point of the last move (the press
  point itself when there was no move), its size is the component-wise absolute difference
  of these two points, its \<open>startFrame\<close> is \<open>currentFrameIndex + 1\<close> and its \<open>endFrame\<close> is \<open>null\<close>.
  The coordinates of the release event are not read.
\<close>

theorem draw_gesture_creates_open_annotation:
  assumes "isFrameAnnotationMode st" and "currentFrameId st = Some f" and "\<not> target_polyp press"
    and "release = MouseUp e \<or> release = MouseLeave e"
  shows "polyps (fold (frameViewer backend (Some c) now)
                   (MouseDown press # map MouseMove moves @ [release]) st)
         = polyps st @
           [\<lparr> id_polyp = now, frame = f, notes_polyp = [],
              startFrame = currentFrameIndex st + 1, endFrame = None,
              position = \<lparr> pt_x = min (clientX press - rect_left c)
                                     (clientX (last (press # moves)) - rect_left c),
                           pt_y = min (clientY press - rect_top c)
                                     (clientY (last (press # moves)) - rect_top c) \<rparr>,
              size_polyp = \<lparr> width = \<bar>clientX (last (press # moves)) - clientX press\<bar>,
                             height = \<bar>clientY (last (press # moves)) - clientY press\<bar> \<rparr> \<rparr>]"
  using assms by (rule draw_gesture_polyps)

text \<open>Witness for claim C1: a press at (50, 50) of the surface, a move elsewhere, a move to
  (150, 120) and the release, at frame index 4, give position (50, 50), size 100 by 70,
  \<open>startFrame = 5\<close> and \<open>endFrame = null\<close>.\<close>

theorem draw_gesture_witness:
  "isFrameAnnotationMode demo_page \<and> currentFrameId demo_page = Some 104
   \<and> \<not> target_polyp (pointer_at 60 70)
   \<and> polyps (fold (frameViewer accepting (Some demo_container) 1700000000000)
                [MouseDown (pointer_at 60 70), MouseMove (pointer_at 100 200),
                 MouseMove (pointer_at 160 140), MouseUp (pointer_at 160 140)] demo_page)
      = [\<lparr> id_polyp = 1700000000000, frame = 104, notes_polyp = [], startFrame = 5, endFrame = None,
           position = \<lparr> pt_x = 50, pt_y = 50 \<rparr>, size_polyp = \<lparr> width = 100, height = 70 \<rparr> \<rparr>]"
proof -
  have m: "isFrameAnnotationMode demo_page" by (simp add: demo_defs)
  have t: "\<not> target_polyp (pointer_at 60 70)" by (simp add: demo_defs)
  have r: "MouseUp (pointer_at 160 140) = MouseUp (pointer_at 160 140)
           \<or> MouseUp (pointer_at 160 140) = MouseLeave (pointer_at 160 140)" by simp
  show ?thesis
    using draw_gesture_creates_open_annotation
      [OF m demo_currentFrameId t r, of accepting demo_container 1700000000000
        "[pointer_at 100 200, pointer_at 160 140]"]
    by (simp add: m t demo_currentFrameId) (simp add: demo_defs)
qed

text \<open>Claim C1 as stated fails: a press at (50, 50) followed by a release at (150, 120) with
  no move in between stores a rectangle of size 0 by 0 at (50, 50), not the rectangle
  between the press point and the release point; and a press at (50, 50), a move to
  (590, 280) and the pointer leaving the surface at (645, 290) store the rectangle up to the
  point of the move, of size 540 by 230.\<close>

theorem release_point_counterexample:
  "polyps (fold (frameViewer accepting (Some demo_container) 1700000000000)
             [MouseDown (pointer_at 60 70), MouseUp (pointer_at 160 140)] demo_page)
   = [\<lparr> id_polyp = 1700000000000, frame = 104, notes_polyp = [], startFrame = 5, endFrame = None,
        position = \<lparr> pt_x = 50, pt_y = 50 \<rparr>, size_polyp = \<lparr> width = 0, height = 0 \<rparr> \<rparr>]
   \<and> polyps (fold (frameViewer accepting (Some demo_container) 1700000000000)
             [MouseDown (pointer_at 60 70), MouseMove (pointer_at 600 300),
              MouseLeave (pointer_at 655 310)] demo_page)
   = [\<lparr> id_polyp = 1700000000000, frame = 104, notes_polyp = [], startFrame = 5, endFrame = None,
        position = \<lparr> pt_x = 50, pt_y = 50 \<rparr>, size_polyp = \<lparr> width = 540, height = 230 \<rparr> \<rparr>]"
  by (simp add: handleMouseDown_def handleMouseMove_def handleMouseUp_def saveAnnotation_keeps Let_def
        demo_currentFrameId currentFrameId_def demo_defs)

subsection \<open>Closed annotations\<close>

text \<open>
  Claim C2, as amended. A drag move and a resize move change the position, respectively the
  size, of the selected annotation by the same formulas whether or not its \<open>endFrame\<close> is
  set, and leave its \<open>endFrame\<close> as it was; the \<open>end(id)\<close> action in frame annotation mode with
  a current frame at index \<open>f\<close> sets the \<open>endFrame\<close> of the annotation to \<open>f + 1\<close>.
\<close>

theorem geometry_edits_apply_to_closed:
  assumes "p \<in> set (polyps st)" and "id_polyp p = pid"
  shows "(isDragging st \<and> selectedPolyp st = Some pid \<longrightarrow>
            (\<exists>q \<in> set (polyps (onDrag backend e (Some c) st)).
               id_polyp q = pid \<and> endFrame q = endFrame p \<and> size_polyp q = size_polyp p
               \<and> pt_x (position q)
                   = max 0 (min (clientX e - rect_left c - pt_x (dragStart st))
                                (rect_width c - width (size_polyp p)))
               \<and> pt_y (position q)
                   = max 0 (min (clientY e - rect_top c - pt_y (dragStart st))
                                (rect_height c - height (size_polyp p)))))
         \<and> (isResizing st \<and> selectedPolyp st = Some pid \<longrightarrow>
            (\<exists>q \<in> set (polyps (onResize e (Some c) st)).
               id_polyp q = pid \<and> endFrame q = endFrame p \<and> position q = position p
               \<and> width (size_polyp q)
                   = max 30 (min (width (size_polyp p) + (clientX e - pt_x (dragStart st)))
                                 (rect_width c - pt_x (position p)))
               \<and> height (size_polyp q)
                   = max 30 (min (height (size_polyp p) + (clientY e - pt_y (dragStart st)))
                                 (rect_height c - pt_y (position p)))))
         \<and> (isFrameAnnotationMode st \<and> currentFrameId st \<noteq> None \<longrightarrow>
            p\<lparr>endFrame := Some (currentFrameIndex st + 1)\<rparr>
              \<in> set (polyps (handleEndPolyp backend pid st)))"
proof (intro conjI impI)
  assume "isDragging st \<and> selectedPolyp st = Some pid"
  then have d: "isDragging st" and sl: "selectedPolyp st = Some pid" by auto
  have "dragged e c (dragStart st) p \<in> set (polyps (onDrag backend e (Some c) st))"
    unfolding onDrag_polyps [OF d sl] using assms by force
  then show "\<exists>q \<in> set (polyps (onDrag backend e (Some c) st)).
               id_polyp q = pid \<and> endFrame q = endFrame p \<and> size_polyp q = size_polyp p
               \<and> pt_x (position q)
                   = max 0 (min (clientX e - rect_left c - pt_x (dragStart st))
                                (rect_width c - width (size_polyp p)))
               \<and> pt_y (position q)
                   = max 0 (min (clientY e - rect_top c - pt_y (dragStart st))
                                (rect_height c - height (size_polyp p)))"
    using assms(2) by (intro bexI [of _ "dragged e c (dragStart st) p"]) (simp_all add: dragged_def Let_def)
next
  assume "isResizing st \<and> selectedPolyp st = Some pid"
  then have r: "isResizing st" and sl: "selectedPolyp st = Some pid" by auto
  let ?q = "resized (clientX e - pt_x (dragStart st)) (clientY e - pt_y (dragStart st)) c p"
  have "?q \<in> set (polyps (onResize e (Some c) st))"
    unfolding onResize_polyps [OF r sl] using assms by force
  then show "\<exists>q \<in> set (polyps (onResize e (Some c) st)).
               id_polyp q = pid \<and> endFrame q = endFrame p \<and> position q = position p
               \<and> width (size_polyp q)
                   = max 30 (min (width (size_polyp p) + (clientX e - pt_x (dragStart st)))
                                 (rect_width c - pt_x (position p)))
               \<and> height (size_polyp q)
                   = max 30 (min (height (size_polyp p) + (clientY e - pt_y (dragStart st)))
                                 (rect_height c - pt_y (position p)))"
    using assms(2) by (intro bexI [of _ ?q]) (simp_all add: resized_def)
next
  assume m: "isFrameAnnotationMode st \<and> currentFrameId st \<noteq> None"
  then show "p\<lparr>endFrame := Some (currentFrameIndex st + 1)\<rparr>
              \<in> set (polyps (handleEndPolyp backend pid st))"
    using assms by (force simp: handleEndPolyp_polyps)
qed

text \<open>Witness for claim C2: a closed annotation is moved by a drag and resized by a resize,
  and ending an open annotation while viewing frame index 9 sets \<open>endFrame = 10\<close>.\<close>

theorem geometry_edits_witness:
  "endFrame closed_polyp = Some 10
   \<and> isDragging (dragging_page [closed_polyp]) \<and> isResizing (resizing_page [closed_polyp])
   \<and> polyps (onDrag accepting (pointer_at 215 225) (Some demo_container) (dragging_page [closed_polyp]))
       = [closed_polyp\<lparr>position := \<lparr> pt_x = 200, pt_y = 200 \<rparr>\<rparr>]
   \<and> polyps (onResize (pointer_at 410 320) (Some demo_container) (resizing_page [closed_polyp]))
       = [closed_polyp\<lparr>size_polyp := \<lparr> width = 110, height = 90 \<rparr>\<rparr>]
   \<and> currentFrameId ((page_with [demo_polyp])\<lparr>currentFrameIndex := 9\<rparr>) = Some 109
   \<and> polyps (handleEndPolyp accepting 1 ((page_with [demo_polyp])\<lparr>currentFrameIndex := 9\<rparr>))
       = [closed_polyp]"
proof -
  have m: "closed_polyp \<in> set (polyps (dragging_page [closed_polyp]))"
    "closed_polyp \<in> set (polyps (resizing_page [closed_polyp]))"
    "demo_polyp \<in> set (polyps ((page_with [demo_polyp])\<lparr>currentFrameIndex := 9\<rparr>))"
    by (simp_all add: demo closed_polyp_def dragging_page_def resizing_page_def)
  have i: "id_polyp closed_polyp = 1" "id_polyp demo_polyp = 1" by (simp_all add: demo closed_polyp_def dragging_page_def resizing_page_def)
  show ?thesis
    using geometry_edits_apply_to_closed [OF m(1) i(1), of accepting "pointer_at 215 225" demo_container]
      geometry_edits_apply_to_closed [OF m(2) i(1), of accepting "pointer_at 410 320" demo_container]
      geometry_edits_apply_to_closed [OF m(3) i(2), of accepting]
    by (simp add: onDrag_polyps onResize_polyps handleEndPolyp_polyps currentFrameId_def
         dragged_def resized_def Let_def demo closed_polyp_def dragging_page_def resizing_page_def)
qed

text \<open>Claim C2 as stated fails: after \<open>end(id)\<close> at frame index 9, pressing on the annotation
  and moving the pointer moves the closed annotation from (50, 50) to (200, 200).\<close>

theorem closed_annotation_moved_counterexample:
  "polyps (handleMouseMove accepting (pointer_at 215 225) (Some demo_container)
            (startDrag (pointer_at 65 75) 1 (Some demo_container)
               (handleEndPolyp accepting 1 ((page_with [demo_polyp])\<lparr>currentFrameIndex := 9\<rparr>))))
   = [demo_polyp\<lparr>endFrame := Some 10, position := \<lparr> pt_x = 200, pt_y = 200 \<rparr>\<rparr>]"
  by (simp add: handleMouseMove_def onDrag_def dragged_def startDrag_def handleEndPolyp_def
        saveAnnotation_def createOrUpdateAnnotation_def token_def currentFrameId_def Let_def demo)

subsection \<open>Resizing\<close>

text \<open>
  Claim C3, as amended. A resize move gives the selected annotation a width and a height of
  at least 30 each, for every delta; and its right edge stays within the container whenever
  the container leaves at least 30 pixels to the right of its left edge (likewise its bottom
  edge, whenever at least 30 pixels are left below its top edge).
\<close>

theorem onResize_minimum_and_bounds:
  assumes "isResizing st" and "selectedPolyp st = Some sel"
    and "q \<in> set (polyps (onResize e (Some c) st))" and "id_polyp q = sel"
  shows "30 \<le> width (size_polyp q) \<and> 30 \<le> height (size_polyp q)
         \<and> (30 \<le> rect_width c - pt_x (position q) \<longrightarrow>
              pt_x (position q) + width (size_polyp q) \<le> rect_width c)
         \<and> (30 \<le> rect_height c - pt_y (position q) \<longrightarrow>
              pt_y (position q) + height (size_polyp q) \<le> rect_height c)"
proof -
  from onResize_selected [OF assms] obtain p where
    "q = resized (clientX e - pt_x (dragStart st)) (clientY e - pt_y (dragStart st)) c p"
    by blast
  then show ?thesis
    by (auto simp: resized_def)
qed

text \<open>Witness for claim C3: a large negative delta shrinks a 100 by 70 annotation to 30 by
  30, inside the container.\<close>

theorem onResize_minimum_witness:
  "isResizing (resizing_page [demo_polyp]) \<and> selectedPolyp (resizing_page [demo_polyp]) = Some 1
   \<and> polyps (onResize (pointer_at (-5000) (-5000)) (Some demo_container) (resizing_page [demo_polyp]))
       = [demo_polyp\<lparr>size_polyp := \<lparr> width = 30, height = 30 \<rparr>\<rparr>]
   \<and> id_polyp (demo_polyp\<lparr>size_polyp := \<lparr> width = 30, height = 30 \<rparr>\<rparr>) = 1
   \<and> (30::rat) \<le> 30 \<and> 50 + 30 \<le> rect_width demo_container
   \<and> 50 + 30 \<le> rect_height demo_container"
proof -
  have a: "isResizing (resizing_page [demo_polyp])"
    and b: "selectedPolyp (resizing_page [demo_polyp]) = Some 1"
    by (simp_all add: demo resizing_page_def)
  have c: "polyps (onResize (pointer_at (-5000) (-5000)) (Some demo_container) (resizing_page [demo_polyp]))
       = [demo_polyp\<lparr>size_polyp := \<lparr> width = 30, height = 30 \<rparr>\<rparr>]"
    by (simp add: onResize_def resized_def Let_def demo resizing_page_def)
  have d: "demo_polyp\<lparr>size_polyp := \<lparr> width = 30, height = 30 \<rparr>\<rparr>
           \<in> set (polyps (onResize (pointer_at (-5000) (-5000)) (Some demo_container)
                            (resizing_page [demo_polyp])))"
    by (simp add: c)
  have e: "id_polyp (demo_polyp\<lparr>size_polyp := \<lparr> width = 30, height = 30 \<rparr>\<rparr>) = 1"
    by (simp add: demo resizing_page_def)
  show ?thesis
    using onResize_minimum_and_bounds [OF a b d e] a b c e
    by (simp add: demo resizing_page_def)
qed

text \<open>Claim C3 as stated fails: an annotation whose left edge is 20 pixels from the right
  edge of a container 640 wide gets width 30 on any resize move, so it ends at 650.\<close>

theorem onResize_bounds_counterexample:
  "polyps (onResize (pointer_at 400 300) (Some demo_container) (resizing_page [edge_polyp]))
     = [edge_polyp\<lparr>size_polyp := \<lparr> width = 30, height = 70 \<rparr>\<rparr>]
   \<and> pt_x (position edge_polyp) + 30 = 650 \<and> rect_width demo_container = 640"
  by (simp add: onResize_def resized_def Let_def demo edge_polyp_def resizing_page_def)

subsection \<open>Geometry of stored annotations\<close>

text \<open>
  Claim C4, as amended. The annotation created by a draw gesture has a width and a height
  that are not negative (and may be zero); a drag move stores the selected annotation at a
  position with non-negative coordinates, and within the container along each axis on which
  the annotation is not larger than the container; a resize move stores it with positive
  width and height; and the hydration of a fetched record stores its position and size as
  fetched.
\<close>

theorem stored_geometry:
  "(isFrameAnnotationMode st \<and> currentFrameId st \<noteq> None \<and> \<not> target_polyp press \<longrightarrow>
      0 \<le> width (size_polyp (last (polyps (fold (frameViewer backend (Some c) now)
                (MouseDown press # map MouseMove moves @ [MouseUp e]) st))))
      \<and> 0 \<le> height (size_polyp (last (polyps (fold (frameViewer backend (Some c) now)
                (MouseDown press # map MouseMove moves @ [MouseUp e]) st)))))
   \<and> (isDragging st \<and> selectedPolyp st = Some sel
        \<and> q \<in> set (polyps (onDrag backend e (Some c) st)) \<and> id_polyp q = sel \<longrightarrow>
      0 \<le> pt_x (position q) \<and> 0 \<le> pt_y (position q)
      \<and> (width (size_polyp q) \<le> rect_width c \<longrightarrow>
            pt_x (position q) + width (size_polyp q) \<le> rect_width c)
      \<and> (height (size_polyp q) \<le> rect_height c \<longrightarrow>
            pt_y (position q) + height (size_polyp q) \<le> rect_height c))
   \<and> (isResizing st \<and> selectedPolyp st = Some sel
        \<and> r \<in> set (polyps (onResize e (Some c) st)) \<and> id_polyp r = sel \<longrightarrow>
      0 < width (size_polyp r) \<and> 0 < height (size_polyp r))
   \<and> position (hydrate f a) = \<lparr> pt_x = x1 a, pt_y = y1 a \<rparr>
   \<and> size_polyp (hydrate f a) = \<lparr> width = width_a a, height = height_a a \<rparr>"
proof -
  have draw: "isFrameAnnotationMode st \<and> currentFrameId st \<noteq> None \<and> \<not> target_polyp press \<longrightarrow>
      0 \<le> width (size_polyp (last (polyps (fold (frameViewer backend (Some c) now)
                (MouseDown press # map MouseMove moves @ [MouseUp e]) st))))
      \<and> 0 \<le> height (size_polyp (last (polyps (fold (frameViewer backend (Some c) now)
                (MouseDown press # map MouseMove moves @ [MouseUp e]) st))))"
    using draw_gesture_nonneg by blast
  have drag: "isDragging st \<and> selectedPolyp st = Some sel
        \<and> q \<in> set (polyps (onDrag backend e (Some c) st)) \<and> id_polyp q = sel \<longrightarrow>
      0 \<le> pt_x (position q) \<and> 0 \<le> pt_y (position q)
      \<and> (width (size_polyp q) \<le> rect_width c \<longrightarrow>
            pt_x (position q) + width (size_polyp q) \<le> rect_width c)
      \<and> (height (size_polyp q) \<le> rect_height c \<longrightarrow>
            pt_y (position q) + height (size_polyp q) \<le> rect_height c)"
  proof
    assume "isDragging st \<and> selectedPolyp st = Some sel
        \<and> q \<in> set (polyps (onDrag backend e (Some c) st)) \<and> id_polyp q = sel"
    then obtain p where "q = dragged e c (dragStart st) p"
      using onDrag_selected [of st sel q backend e c] by blast
    then show "0 \<le> pt_x (position q) \<and> 0 \<le> pt_y (position q)
      \<and> (width (size_polyp q) \<le> rect_width c \<longrightarrow>
            pt_x (position q) + width (size_polyp q) \<le> rect_width c)
      \<and> (height (size_polyp q) \<le> rect_height c \<longrightarrow>
            pt_y (position q) + height (size_polyp q) \<le> rect_height c)"
      using dragged_clamped [of e c "dragStart st" p] by simp
  qed
  have resize: "isResizing st \<and> selectedPolyp st = Some sel
        \<and> r \<in> set (polyps (onResize e (Some c) st)) \<and> id_polyp r = sel \<longrightarrow>
      0 < width (size_polyp r) \<and> 0 < height (size_polyp r)"
  proof
    assume "isResizing st \<and> selectedPolyp st = Some sel
        \<and> r \<in> set (polyps (onResize e (Some c) st)) \<and> id_polyp r = sel"
    then obtain p where
      "r = resized (clientX e - pt_x (dragStart st)) (clientY e - pt_y (dragStart st)) c p"
      using onResize_selected [of st sel r e c] by blast
    then show "0 < width (size_polyp r) \<and> 0 < height (size_polyp r)"
      by (auto simp: resized_def max_def)
  qed
  have "position (hydrate f a) = \<lparr> pt_x = x1 a, pt_y = y1 a \<rparr>"
    and "size_polyp (hydrate f a) = \<lparr> width = width_a a, height = height_a a \<rparr>"
    by (simp_all add: hydrate_def)
  with draw drag resize show ?thesis by blast
qed

text \<open>Witness for claim C4: a rectangle drawn from the bottom right to the top left, a drag
  far beyond the top right corner, a resize by a large negative delta, and the hydration of a
  saved record.\<close>

theorem stored_geometry_witness:
  "isFrameAnnotationMode demo_page \<and> currentFrameId demo_page \<noteq> None
   \<and> \<not> target_polyp (pointer_at 160 140)
   \<and> size_polyp (last (polyps (fold (frameViewer accepting (Some demo_container) 1700000000000)
        (MouseDown (pointer_at 160 140) # map MouseMove [pointer_at 60 70] @ [MouseUp (pointer_at 60 70)])
        demo_page))) = \<lparr> width = 100, height = 70 \<rparr>
   \<and> (0::rat) \<le> 100 \<and> (0::rat) \<le> 70
   \<and> isDragging (dragging_page [demo_polyp]) \<and> selectedPolyp (dragging_page [demo_polyp]) = Some 1
   \<and> polyps (onDrag accepting (pointer_at 5000 (-5000)) (Some demo_container) (dragging_page [demo_polyp]))
       = [demo_polyp\<lparr>position := \<lparr> pt_x = 540, pt_y = 0 \<rparr>\<rparr>]
   \<and> 540 + width (size_polyp demo_polyp) \<le> rect_width demo_container
   \<and> isResizing (resizing_page [demo_polyp]) \<and> selectedPolyp (resizing_page [demo_polyp]) = Some 1
   \<and> polyps (onResize (pointer_at (-5000) (-5000)) (Some demo_container) (resizing_page [demo_polyp]))
       = [demo_polyp\<lparr>size_polyp := \<lparr> width = 30, height = 30 \<rparr>\<rparr>]
   \<and> position (hydrate 104 (annotationData 7 demo_polyp)) = \<lparr> pt_x = 50, pt_y = 50 \<rparr>
   \<and> size_polyp (hydrate 104 (annotationData 7 demo_polyp)) = \<lparr> width = 100, height = 70 \<rparr>"
proof -
  let ?q = "demo_polyp\<lparr>position := \<lparr> pt_x = 540, pt_y = 0 \<rparr>\<rparr>"
  let ?r = "demo_polyp\<lparr>size_polyp := \<lparr> width = 30, height = 30 \<rparr>\<rparr>"
  have h1: "isFrameAnnotationMode demo_page \<and> currentFrameId demo_page \<noteq> None
            \<and> \<not> target_polyp (pointer_at 160 140)"
    by (simp add: demo_currentFrameId) (simp add: demo_defs)
  have g: "size_polyp (last (polyps (fold (frameViewer accepting (Some demo_container) 1700000000000)
        (MouseDown (pointer_at 160 140) # map MouseMove [pointer_at 60 70] @ [MouseUp (pointer_at 60 70)])
        demo_page))) = \<lparr> width = 100, height = 70 \<rparr>"
    by (simp add: handleMouseDown_def handleMouseMove_def handleMouseUp_def saveAnnotation_keeps
          Let_def demo_currentFrameId currentFrameId_def demo_defs)
  have d: "polyps (onDrag accepting (pointer_at 5000 (-5000)) (Some demo_container) (dragging_page [demo_polyp]))
       = [?q]"
    by (simp add: onDrag_polyps dragged_def Let_def demo dragging_page_def resizing_page_def)
  have h2: "isDragging (dragging_page [demo_polyp]) \<and> selectedPolyp (dragging_page [demo_polyp]) = Some 1
     \<and> ?q \<in> set (polyps (onDrag accepting (pointer_at 5000 (-5000)) (Some demo_container)
                            (dragging_page [demo_polyp])))
     \<and> id_polyp ?q = 1"
    by (simp add: d) (simp add: demo dragging_page_def resizing_page_def)
  have r: "polyps (onResize (pointer_at (-5000) (-5000)) (Some demo_container) (resizing_page [demo_polyp]))
       = [?r]"
    by (simp add: onResize_def resized_def Let_def demo dragging_page_def resizing_page_def)
  have h3: "isResizing (resizing_page [demo_polyp]) \<and> selectedPolyp (resizing_page [demo_polyp]) = Some 1
     \<and> ?r \<in> set (polyps (onResize (pointer_at (-5000) (-5000)) (Some demo_container)
                            (resizing_page [demo_polyp])))
     \<and> id_polyp ?r = 1"
    by (simp add: r) (simp add: demo dragging_page_def resizing_page_def)
  have c1: "0 \<le> width (size_polyp (last (polyps (fold (frameViewer accepting (Some demo_container) 1700000000000)
        (MouseDown (pointer_at 160 140) # map MouseMove [pointer_at 60 70] @ [MouseUp (pointer_at 60 70)])
        demo_page))))"
    using stored_geometry [where st = demo_page and press = "pointer_at 160 140"
        and moves = "[pointer_at 60 70]" and e = "pointer_at 60 70" and backend = accepting
        and c = demo_container and now = 1700000000000] h1
    by blast
  have c2: "width (size_polyp ?q) \<le> rect_width demo_container \<longrightarrow>
            pt_x (position ?q) + width (size_polyp ?q) \<le> rect_width demo_container"
    using stored_geometry [where st = "dragging_page [demo_polyp]" and sel = 1 and q = ?q
        and e = "pointer_at 5000 (-5000)" and backend = accepting and c = demo_container] h2
    by blast
  have c3: "0 < width (size_polyp ?r)"
    using stored_geometry [where st = "resizing_page [demo_polyp]" and sel = 1 and r = ?r
        and e = "pointer_at (-5000) (-5000)" and c = demo_container] h3
    by blast
  have c4: "position (hydrate 104 (annotationData 7 demo_polyp)) = \<lparr> pt_x = 50, pt_y = 50 \<rparr>
     \<and> size_polyp (hydrate 104 (annotationData 7 demo_polyp)) = \<lparr> width = 100, height = 70 \<rparr>"
    using stored_geometry [where f = 104 and a = "annotationData 7 demo_polyp"]
    by (simp add: annotationData_def demo_polyp_def)
  have w: "540 + width (size_polyp demo_polyp) \<le> rect_width demo_container"
    using c2 by (simp add: demo dragging_page_def resizing_page_def)
  from h1 h2 h3 g d r c1 c3 c4 w show ?thesis
    by simp
qed

text \<open>Claim C4 as stated fails: a press and a release without a move store an annotation of
  width 0 and height 0.\<close>

theorem zero_size_stored_counterexample:
  "size_polyp (last (polyps (fold (frameViewer accepting (Some demo_container) 1700000000000)
             [MouseDown (pointer_at 60 70), MouseUp (pointer_at 60 70)] demo_page)))
   = \<lparr> width = 0, height = 0 \<rparr>"
  by (simp add: handleMouseDown_def handleMouseUp_def saveAnnotation_keeps Let_def
        demo_currentFrameId currentFrameId_def demo_defs)

subsection \<open>Switching modes\<close>

lemma onExitFrameMode_eq: "onExitFrameMode annResp st = st\<lparr>isFrameAnnotationMode := False\<rparr>"
  by (simp add: onExitFrameMode_def annotationsEffect_def loadAnnotations_def
      split: option.splits)

lemma onEnterFrameMode_loaded:
  assumes "\<not> isFrameAnnotationMode st" and "token st = Some tok" and "fs \<noteq> []"
  shows "polyps (onEnterFrameMode (Ok fs) (Ok anns) st) = map (hydrate (id_frame (hd fs))) anns"
proof -
  let ?s = "fetchFrames (Ok fs) st"
  have s: "?s = st\<lparr>issued := issued st @ [GetFramesPath (videoId st)], frames := fs,
                    currentFrameIndex := 0, isFrameAnnotationMode := True\<rparr>"
    by (simp add: fetchFrames_def Let_def)
  have deps: "effect_deps ?s \<noteq> effect_deps st"
    using assms(1) by (simp add: s effect_deps_def)
  have fid: "currentFrameId ?s = Some (id_frame (hd fs))"
    using assms(3) by (simp add: s currentFrameId_def hd_conv_nth)
  have tok: "token ?s = Some tok"
    using assms(2) by (simp add: s token_def)
  have "onEnterFrameMode (Ok fs) (Ok anns) st = loadAnnotations (Ok anns) ?s"
    using deps fid by (simp add: onEnterFrameMode_def annotationsEffect_def)
  moreover have "polyps (loadAnnotations (Ok anns) ?s) = map (hydrate (id_frame (hd fs))) anns"
    using fid tok by (simp add: loadAnnotations_def fetchAnnotationsForFrame_def Let_def s)
  ultimately show ?thesis by simp
qed

lemma onEnterFrameMode_load_failed:
  "polyps (onEnterFrameMode framesResp (Failed d) st) = polyps st"
  by (cases framesResp)
     (simp_all add: onEnterFrameMode_def annotationsEffect_def fetchFrames_def loadAnnotations_def
        fetchAnnotationsForFrame_def Let_def split: option.splits)

text \<open>
  Claim C5, as amended. Leaving frame annotation mode does not change the list of
  annotations. Entering it again resets the frame index to 0 and, when the frame list is not
  empty and the annotations of the first frame are fetched, replaces the list by the fetched
  annotations of that frame; when that fetch fails the list is unchanged. The overlay of the
  continuous view shows exactly the annotations whose \<open>endFrame\<close> is \<open>null\<close> or \<open>0\<close>.
\<close>

theorem mode_round_trip:
  "polyps (onExitFrameMode r st) = polyps st
   \<and> (token st = Some tok \<and> fs \<noteq> [] \<longrightarrow>
        polyps (onEnterFrameMode (Ok fs) (Ok anns) (onExitFrameMode r st))
          = map (hydrate (id_frame (hd fs))) anns)
   \<and> polyps (onEnterFrameMode framesResp (Failed d) (onExitFrameMode r st)) = polyps st
   \<and> (render st = VideoView ov sb \<longrightarrow>
        ov = filter (\<lambda>p. endFrame p = None \<or> endFrame p = Some 0) (polyps st))"
proof (intro conjI impI)
  show "polyps (onExitFrameMode r st) = polyps st"
    by (simp add: onExitFrameMode_eq)
next
  assume a: "token st = Some tok \<and> fs \<noteq> []"
  have "\<not> isFrameAnnotationMode (onExitFrameMode r st)" "token (onExitFrameMode r st) = Some tok"
    using a by (simp_all add: onExitFrameMode_eq token_def)
  then show "polyps (onEnterFrameMode (Ok fs) (Ok anns) (onExitFrameMode r st))
          = map (hydrate (id_frame (hd fs))) anns"
    using a by (intro onEnterFrameMode_loaded) simp_all
next
  show "polyps (onEnterFrameMode framesResp (Failed d) (onExitFrameMode r st)) = polyps st"
    by (simp add: onEnterFrameMode_load_failed) (simp add: onExitFrameMode_eq)
next
  assume "render st = VideoView ov sb"
  then show "ov = filter (\<lambda>p. endFrame p = None \<or> endFrame p = Some 0) (polyps st)"
    by (auto simp: render_def split: if_splits)
qed

text \<open>Witness for claim C5: the round trip with a backend that returns the saved record of
  the annotation for the first frame, and the continuous view of a list with a closed and an
  open annotation.\<close>

theorem mode_round_trip_witness:
  "token (page_with [demo_polyp]) = Some ''token'' \<and> demo_frames \<noteq> []
   \<and> polyps (onEnterFrameMode (Ok demo_frames)
               (Ok [annotationData 7 demo_polyp])
               (onExitFrameMode (Ok []) (page_with [demo_polyp])))
      = [demo_polyp\<lparr>frame := 100\<rparr>]
   \<and> render (onExitFrameMode (Ok []) (page_with [demo_polyp\<lparr>endFrame := Some 10\<rparr>, demo_polyp]))
      = VideoView [demo_polyp] []"
proof -
  have t: "token (page_with [demo_polyp]) = Some ''token''" by (simp add: token_def demo)
  have f: "demo_frames \<noteq> []" by (simp add: demo)
  have v: "render (onExitFrameMode (Ok []) (page_with [demo_polyp\<lparr>endFrame := Some 10\<rparr>, demo_polyp]))
      = VideoView [demo_polyp] []"
    by (simp add: onExitFrameMode_eq render_def demo)
  show ?thesis
    using mode_round_trip [where st = "page_with [demo_polyp]" and tok = "''token''"
        and fs = demo_frames and anns = "[annotationData 7 demo_polyp]" and r = "Ok []"]
      mode_round_trip [where st = "onExitFrameMode (Ok []) (page_with [demo_polyp\<lparr>endFrame := Some 10\<rparr>, demo_polyp])"
        and ov = "[demo_polyp]" and sb = "[]"]
    by (simp add: t f v) (simp add: hydrate_def annotationData_def reload_frame_5 demo)
qed

text \<open>Claim C5 as stated fails: an annotation made on the frame at index 4 is no longer in
  the list after leaving and re-entering frame annotation mode, when the backend has no
  annotation for the first frame.\<close>

theorem mode_round_trip_counterexample:
  "polyps (page_with [demo_polyp]) = [demo_polyp]
   \<and> polyps (onEnterFrameMode (Ok demo_frames) (Ok [])
               (onExitFrameMode (Ok []) (page_with [demo_polyp]))) = []"
  by (simp add: onEnterFrameMode_def onExitFrameMode_def annotationsEffect_def effect_deps_def
        fetchFrames_def loadAnnotations_def fetchAnnotationsForFrame_def currentFrameId_def
        token_def Let_def demo)

subsection \<open>A failed save\<close>




subsection \<open>Deleting\<close>












subsection \<open>What a synchronisation request carries\<close>

text \<open>
  Claim C9. For an annotation \<open>p\<close> present in the list and a page with a token, the request
  issued by \<open>end(id)\<close> (in frame annotation mode with a current frame) and the request issued by
  \<open>addNote(id, text)\<close> (with a non-empty text) are both the record \<open>req\<close> built from \<open>p\<close> as it
  was before the update: its \<open>end_time\<close> is the old \<open>endFrame\<close> divided by 30 as a double (absent
  when the old \<open>endFrame\<close> was \<open>null\<close> or 0, so absent for a first end), its \<open>content\<close> and
  \<open>label\<close> come from the old notes, and its other fields are those of \<open>p\<close>. The list meanwhile
  holds the annotation with the new \<open>endFrame\<close>, respectively the new notes, and is otherwise
  unchanged.
\<close>

theorem sync_request_carries_old_value:
  assumes "find (\<lambda>p. id_polyp p = pid) (polyps st) = Some p" and "token st = Some tok"
    and "req = \<lparr> video_id = videoId st,
                  frame_id = frame p,
                  polyp_id = pid,
                  label = (if notes_polyp p = [] then ''No Label'' else notes_polyp p),
                  x1 = pt_x (position p),
                  y1 = pt_y (position p),
                  x2 = pt_x (position p) + width (size_polyp p),
                  y2 = pt_y (position p) + height (size_polyp p),
                  width_a = width (size_polyp p),
                  height_a = height (size_polyp p),
                  start_time = double (of_int (startFrame p) / 30),
                  end_time = (case endFrame p of
                                None \<Rightarrow> None
                              | Some m \<Rightarrow> if m = 0 then None else Some (double (of_int m / 30))),
                  content = Some (notes_polyp p) \<rparr>"
  shows "(isFrameAnnotationMode st \<and> currentFrameId st \<noteq> None \<longrightarrow>
            issued (handleEndPolyp backend pid st) = issued st @ [CreateOrUpdateAnnotation req tok]
            \<and> find (\<lambda>p. id_polyp p = pid) (polyps (handleEndPolyp backend pid st))
                = Some (p\<lparr>endFrame := Some (currentFrameIndex st + 1)\<rparr>)
            \<and> polyps (handleEndPolyp backend pid st)
                = map (\<lambda>q. if id_polyp q = pid
                            then q\<lparr>endFrame := Some (currentFrameIndex st + 1)\<rparr> else q) (polyps st))
         \<and> (n \<noteq> [] \<longrightarrow>
            issued (handleAddNote backend (Some n) pid st) = issued st @ [CreateOrUpdateAnnotation req tok]
            \<and> find (\<lambda>p. id_polyp p = pid) (polyps (handleAddNote backend (Some n) pid st))
                = Some (p\<lparr>notes_polyp := n\<rparr>)
            \<and> polyps (handleAddNote backend (Some n) pid st)
                = map (\<lambda>q. if id_polyp q = pid then q\<lparr>notes_polyp := n\<rparr> else q) (polyps st))
         \<and> (endFrame p = None \<longrightarrow> end_time req = None)"
proof -
  have i: "id_polyp p = pid"
    using assms(1) by (induction "polyps st") (auto simp: find_Some_iff)
  have r: "req = annotationData (videoId st) p"
    by (simp add: assms(3) annotationData_def i)
  have e: "isFrameAnnotationMode st \<and> currentFrameId st \<noteq> None \<longrightarrow>
            issued (handleEndPolyp backend pid st) = issued st @ [CreateOrUpdateAnnotation req tok]
            \<and> find (\<lambda>p. id_polyp p = pid) (polyps (handleEndPolyp backend pid st))
                = Some (p\<lparr>endFrame := Some (currentFrameIndex st + 1)\<rparr>)
            \<and> polyps (handleEndPolyp backend pid st)
                = map (\<lambda>q. if id_polyp q = pid
                            then q\<lparr>endFrame := Some (currentFrameIndex st + 1)\<rparr> else q) (polyps st)"
  proof
    assume m: "isFrameAnnotationMode st \<and> currentFrameId st \<noteq> None"
    let ?st1 = "st\<lparr>polyps := map (\<lambda>polyp. if id_polyp polyp = pid
                                          then polyp\<lparr>endFrame := Some (currentFrameIndex st + 1)\<rparr>
                                          else polyp) (polyps st)\<rparr>"
    have h: "handleEndPolyp backend pid st = saveAnnotation backend p ?st1"
      using m assms(1) by (simp add: handleEndPolyp_def Let_def)
    have t: "token ?st1 = Some tok" using assms(2) by (simp add: token_def)
    have a: "issued (handleEndPolyp backend pid st) = issued st @ [CreateOrUpdateAnnotation req tok]"
      by (simp add: h saveAnnotation_issued [OF t] r)
    have b: "find (\<lambda>p. id_polyp p = pid) (polyps (handleEndPolyp backend pid st))
          = Some (p\<lparr>endFrame := Some (currentFrameIndex st + 1)\<rparr>)"
      using find_map_update [OF assms(1), of "\<lambda>x. x\<lparr>endFrame := Some (currentFrameIndex st + 1)\<rparr>"]
      by (simp add: h saveAnnotation_keeps)
    have c: "polyps (handleEndPolyp backend pid st)
                = map (\<lambda>q. if id_polyp q = pid
                            then q\<lparr>endFrame := Some (currentFrameIndex st + 1)\<rparr> else q) (polyps st)"
      by (simp add: h saveAnnotation_keeps)
    from a b c show "issued (handleEndPolyp backend pid st) = issued st @ [CreateOrUpdateAnnotation req tok]
            \<and> find (\<lambda>p. id_polyp p = pid) (polyps (handleEndPolyp backend pid st))
                = Some (p\<lparr>endFrame := Some (currentFrameIndex st + 1)\<rparr>)
            \<and> polyps (handleEndPolyp backend pid st)
                = map (\<lambda>q. if id_polyp q = pid
                            then q\<lparr>endFrame := Some (currentFrameIndex st + 1)\<rparr> else q) (polyps st)"
      by (intro conjI)
  qed
  have a: "n \<noteq> [] \<longrightarrow>
            issued (handleAddNote backend (Some n) pid st) = issued st @ [CreateOrUpdateAnnotation req tok]
            \<and> find (\<lambda>p. id_polyp p = pid) (polyps (handleAddNote backend (Some n) pid st))
                = Some (p\<lparr>notes_polyp := n\<rparr>)
            \<and> polyps (handleAddNote backend (Some n) pid st)
                = map (\<lambda>q. if id_polyp q = pid then q\<lparr>notes_polyp := n\<rparr> else q) (polyps st)"
  proof
    assume n: "n \<noteq> []"
    let ?st1 = "st\<lparr>polyps := map (\<lambda>polyp. if id_polyp polyp = pid
                                          then polyp\<lparr>notes_polyp := n\<rparr> else polyp) (polyps st)\<rparr>"
    have h: "handleAddNote backend (Some n) pid st = saveAnnotation backend p ?st1"
      using n assms(1) by (simp add: handleAddNote_def Let_def)
    have t: "token ?st1 = Some tok" using assms(2) by (simp add: token_def)
    have a: "issued (handleAddNote backend (Some n) pid st)
          = issued st @ [CreateOrUpdateAnnotation req tok]"
      by (simp add: h saveAnnotation_issued [OF t] r)
    have b: "find (\<lambda>p. id_polyp p = pid) (polyps (handleAddNote backend (Some n) pid st))
          = Some (p\<lparr>notes_polyp := n\<rparr>)"
      using find_map_update [OF assms(1), of "\<lambda>x. x\<lparr>notes_polyp := n\<rparr>"]
      by (simp add: h saveAnnotation_keeps)
    have c: "polyps (handleAddNote backend (Some n) pid st)
                = map (\<lambda>q. if id_polyp q = pid then q\<lparr>notes_polyp := n\<rparr> else q) (polyps st)"
      by (simp add: h saveAnnotation_keeps)
    from a b c show "issued (handleAddNote backend (Some n) pid st) = issued st @ [CreateOrUpdateAnnotation req tok]
            \<and> find (\<lambda>p. id_polyp p = pid) (polyps (handleAddNote backend (Some n) pid st))
                = Some (p\<lparr>notes_polyp := n\<rparr>)
            \<and> polyps (handleAddNote backend (Some n) pid st)
                = map (\<lambda>q. if id_polyp q = pid then q\<lparr>notes_polyp := n\<rparr> else q) (polyps st)"
      by (intro conjI)
  qed
  have o: "endFrame p = None \<longrightarrow> end_time req = None"
    by (simp add: assms(3))
  from e a o show ?thesis by (intro conjI)
qed

text \<open>Witness for claim C9: an annotation that was already ended at frame 10 and noted
  \<open>sessile\<close> is ended again at frame index 4, and is given the note \<open>flat\<close>; both requests
  carry the end time of frame 10 and the note \<open>sessile\<close>.\<close>

theorem sync_request_witness:
  "find (\<lambda>p. id_polyp p = 1) (polyps (page_with [noted_polyp])) = Some noted_polyp
   \<and> token (page_with [noted_polyp]) = Some ''token''
   \<and> isFrameAnnotationMode (page_with [noted_polyp])
   \<and> currentFrameId (page_with [noted_polyp]) = Some 104
   \<and> endFrame noted_polyp = Some 10 \<and> notes_polyp noted_polyp = ''sessile''
   \<and> issued (handleEndPolyp accepting 1 (page_with [noted_polyp]))
       = [CreateOrUpdateAnnotation
            \<lparr> video_id = 7, frame_id = 104, polyp_id = 1, label = ''sessile'',
              x1 = 50, y1 = 50, x2 = 150, y2 = 120, width_a = 100, height_a = 70,
              start_time = 6004799503160661 / 36028797018963968,
              end_time = Some (6004799503160661 / 18014398509481984),
              content = Some ''sessile'' \<rparr> ''token'']
   \<and> polyps (handleEndPolyp accepting 1 (page_with [noted_polyp]))
       = [noted_polyp\<lparr>endFrame := Some 5\<rparr>]
   \<and> issued (handleAddNote accepting (Some ''flat'') 1 (page_with [noted_polyp]))
       = [CreateOrUpdateAnnotation
            \<lparr> video_id = 7, frame_id = 104, polyp_id = 1, label = ''sessile'',
              x1 = 50, y1 = 50, x2 = 150, y2 = 120, width_a = 100, height_a = 70,
              start_time = 6004799503160661 / 36028797018963968,
              end_time = Some (6004799503160661 / 18014398509481984),
              content = Some ''sessile'' \<rparr> ''token'']
   \<and> polyps (handleAddNote accepting (Some ''flat'') 1 (page_with [noted_polyp]))
       = [noted_polyp\<lparr>notes_polyp := ''flat''\<rparr>]"
proof -
  let ?st = "page_with [noted_polyp]"
  let ?req = "\<lparr> video_id = 7, frame_id = 104, polyp_id = 1, label = ''sessile'',
              x1 = 50, y1 = 50, x2 = 150, y2 = 120, width_a = 100, height_a = 70,
              start_time = 6004799503160661 / 36028797018963968,
              end_time = Some (6004799503160661 / 18014398509481984),
              content = Some ''sessile'' \<rparr>"
  have a: "find (\<lambda>p. id_polyp p = 1) (polyps ?st) = Some noted_polyp"
    by (simp add: demo noted_polyp_def)
  have t: "token ?st = Some ''token''" by (simp add: token_def demo)
  have d: "double (of_int 5 / 30) = 6004799503160661 / 36028797018963968"
    "double (of_int 10 / 30) = 6004799503160661 / 18014398509481984"
    using double_sixth double_third by simp_all
  have q: "?req = \<lparr> video_id = videoId ?st,
                  frame_id = frame noted_polyp,
                  polyp_id = 1,
                  label = (if notes_polyp noted_polyp = [] then ''No Label'' else notes_polyp noted_polyp),
                  x1 = pt_x (position noted_polyp),
                  y1 = pt_y (position noted_polyp),
                  x2 = pt_x (position noted_polyp) + width (size_polyp noted_polyp),
                  y2 = pt_y (position noted_polyp) + height (size_polyp noted_polyp),
                  width_a = width (size_polyp noted_polyp),
                  height_a = height (size_polyp noted_polyp),
                  start_time = double (of_int (startFrame noted_polyp) / 30),
                  end_time = (case endFrame noted_polyp of
                                None \<Rightarrow> None
                              | Some m \<Rightarrow> if m = 0 then None else Some (double (of_int m / 30))),
                  content = Some (notes_polyp noted_polyp) \<rparr>"
    using d by (simp add: demo noted_polyp_def)
  have m: "isFrameAnnotationMode ?st" "currentFrameId ?st = Some 104"
    "endFrame noted_polyp = Some 10" "notes_polyp noted_polyp = ''sessile''"
    "issued ?st = []" "currentFrameIndex ?st = 4"
    "polyps ?st = [noted_polyp]" "id_polyp noted_polyp = 1"
    by (simp_all add: currentFrameId_def demo noted_polyp_def)
  note th = sync_request_carries_old_value [where backend = accepting and n = "''flat''", OF a t q]
  have e: "issued (handleEndPolyp accepting 1 ?st) = [CreateOrUpdateAnnotation ?req ''token'']"
    "polyps (handleEndPolyp accepting 1 ?st) = [noted_polyp\<lparr>endFrame := Some 5\<rparr>]"
    using th [THEN conjunct1] m(1,2) by (simp_all add: m(5-8))
  have n: "issued (handleAddNote accepting (Some ''flat'') 1 ?st) = [CreateOrUpdateAnnotation ?req ''token'']"
    "polyps (handleAddNote accepting (Some ''flat'') 1 ?st) = [noted_polyp\<lparr>notes_polyp := ''flat''\<rparr>]"
    using th [THEN conjunct2, THEN conjunct1] by (simp_all add: m(5-8))
  from a t m(1-4) e n show ?thesis by (intro conjI)
qed

subsection \<open>An end frame of zero\<close>

text \<open>
  Claim C10, as amended. For a fetched \<open>end_time\<close> that is a double, the hydrated annotation has
  \<open>endFrame = 0\<close> exactly when \<open>end_time\<close> is greater than 0 and its product with 30, rounded to
  a double, is less than 1, that is when \<open>end_time * 30 < 1 - 1 / 2 ^ 54\<close>; without an \<open>end_time\<close>
  the \<open>endFrame\<close> is \<open>null\<close>. An annotation hydrated with \<open>endFrame = 0\<close> is sent without an
  \<open>end_time\<close> when it is saved, and it is in the overlay of the continuous view.
\<close>

theorem hydrated_endFrame_zero:
  "(end_time a = Some t \<and> is_double t \<longrightarrow>
      (endFrame (hydrate f a) = Some 0 \<longleftrightarrow> 0 < t \<and> t * 30 < 1 - 1 / 2 ^ 54))
   \<and> (end_time a = None \<longrightarrow> endFrame (hydrate f a) = None)
   \<and> (endFrame (hydrate f a) = Some 0 \<longrightarrow>
        end_time (annotationData vid (hydrate f a)) = None
        \<and> (token st = Some tok \<longrightarrow>
             issued (saveAnnotation backend (hydrate f a) st)
               = issued st @ [CreateOrUpdateAnnotation (annotationData (videoId st) (hydrate f a)) tok])
        \<and> (hydrate f a \<in> set (polyps st) \<and> render st = VideoView ov sb \<longrightarrow> hydrate f a \<in> set ov))"
proof -
  have z: "endFrame (hydrate f a) = Some 0 \<longleftrightarrow> 0 < t \<and> t * 30 < 1 - 1 / 2 ^ 54"
    if e: "end_time a = Some t \<and> is_double t"
  proof (cases "0 < t")
    case True
    then have "0 < t * 30" by simp
    from floor_double_zero_iff [OF this] True e show ?thesis
      by (simp add: hydrate_def)
  next
    case False
    show ?thesis
    proof (cases "t = 0")
      case True
      with e show ?thesis by (simp add: hydrate_def)
    next
      case f: False
      with False have n: "t < 0" by simp
      from e have "is_double t" by simp
      from double_negative_product [OF this n] have "\<lfloor>double (t * 30)\<rfloor> \<noteq> 0"
        by (simp add: floor_eq_iff)
      with e f False show ?thesis by (simp add: hydrate_def)
    qed
  qed
  have o: "end_time a = None \<longrightarrow> endFrame (hydrate f a) = None"
    by (simp add: hydrate_def)
  have s: "end_time (annotationData vid (hydrate f a)) = None" if "endFrame (hydrate f a) = Some 0"
    using that by (simp add: annotationData_def)
  have i: "token st = Some tok \<longrightarrow>
             issued (saveAnnotation backend (hydrate f a) st)
               = issued st @ [CreateOrUpdateAnnotation (annotationData (videoId st) (hydrate f a)) tok]"
    by (simp add: saveAnnotation_issued)
  have v: "hydrate f a \<in> set ov"
    if "endFrame (hydrate f a) = Some 0" and "hydrate f a \<in> set (polyps st) \<and> render st = VideoView ov sb"
    using that by (auto simp: render_def split: if_splits)
  from z o s i v show ?thesis by blast
qed

text \<open>Witness for claim C10: a fetched record with \<open>end_time\<close> one sixty-fourth of a second.\<close>

theorem hydrated_endFrame_zero_witness:
  "end_time short_end_annotation = Some (1 / 64) \<and> is_double (1 / 64)
   \<and> (0::rat) < 1 / 64 \<and> (1::rat) / 64 * 30 < 1 - 1 / 2 ^ 54
   \<and> endFrame (hydrate 104 short_end_annotation) = Some 0
   \<and> end_time (annotationData 7 (hydrate 104 short_end_annotation)) = None
   \<and> token (video_page [hydrate 104 short_end_annotation]) = Some ''token''
   \<and> issued (saveAnnotation accepting (hydrate 104 short_end_annotation)
               (video_page [hydrate 104 short_end_annotation]))
       = [CreateOrUpdateAnnotation (annotationData 7 (hydrate 104 short_end_annotation)) ''token'']
   \<and> hydrate 104 short_end_annotation \<in> set (polyps (video_page [hydrate 104 short_end_annotation]))
   \<and> render (video_page [hydrate 104 short_end_annotation])
       = VideoView [hydrate 104 short_end_annotation] []"
proof -
  let ?h = "hydrate 104 short_end_annotation"
  have e: "end_time short_end_annotation = Some (1 / 64)" by (simp add: short_end_annotation_def)
  have b: "(0::rat) < 1 / 64" "(1::rat) / 64 * 30 < 1 - 1 / 2 ^ 54" by simp_all
  note th = hydrated_endFrame_zero [where f = 104 and a = short_end_annotation and vid = 7
        and st = "video_page [?h]" and tok = "''token''" and t = "1 / 64"
        and ov = "[?h]" and sb = "[]" and backend = accepting]
  have z: "endFrame ?h = Some 0"
    using th [THEN conjunct1] e is_double_64 b by blast
  have v: "render (video_page [?h]) = VideoView [?h] []"
    by (simp add: render_def z video_page_def page_with_def demo_page_def)
  have t: "token (video_page [?h]) = Some ''token''"
    "issued (video_page [?h]) = []" "videoId (video_page [?h]) = 7"
    "?h \<in> set (polyps (video_page [?h]))"
    by (simp_all add: token_def video_page_def page_with_def demo_page_def)
  have s: "end_time (annotationData 7 ?h) = None"
    using th [THEN conjunct2, THEN conjunct2] z by blast
  have i: "issued (saveAnnotation accepting ?h (video_page [?h]))
       = [CreateOrUpdateAnnotation (annotationData 7 ?h) ''token'']"
    using th [THEN conjunct2, THEN conjunct2] z t by simp
  from e is_double_64 b z s t(1) i t(4) v show ?thesis by (intro conjI)
qed

text \<open>Claim C10 as stated fails: the \<open>end_time\<close> that the page itself sends for \<open>endFrame = 1\<close>
  is the double nearest to one thirtieth, which is greater than 0 and less than one thirtieth,
  yet its product with 30 rounds to 1 and the annotation is hydrated with \<open>endFrame = 1\<close>.\<close>

theorem hydrated_endFrame_counterexample:
  "end_time (annotationData 7 (demo_polyp\<lparr>endFrame := Some 1\<rparr>)) = Some thirtieth
   \<and> 0 < thirtieth \<and> thirtieth < 1 / 30
   \<and> endFrame (hydrate 104 (annotationData 7 (demo_polyp\<lparr>endFrame := Some 1\<rparr>))) = Some 1"
proof -
  have e: "end_time (annotationData 7 (demo_polyp\<lparr>endFrame := Some 1\<rparr>)) = Some thirtieth"
    by (simp add: annotationData_def double_thirtieth)
  have b: "0 < thirtieth" "thirtieth < 1 / 30" "thirtieth \<noteq> 0" by (simp_all add: thirtieth_def)
  have h: "endFrame (hydrate 104 (annotationData 7 (demo_polyp\<lparr>endFrame := Some 1\<rparr>))) = Some 1"
    by (simp add: hydrate_def e b(3) thirtieth_times_30)
  from e b(1,2) h show ?thesis by (intro conjI)
qed

end
